(* ===== verification/Prelude.thy ===== *)
theory Prelude
  imports Main "HOL-Library.Word" "HOL-Library.AList" "HOL-Library.Sublist" "HOL-Library.Multiset"
begin

section \<open>Prelude: the Rust notions every component shares\<close>

text \<open>
  What the Solana service takes from the Rust language and its standard library: fixed-width
  integers with checked or wrapping arithmetic, panics and \<open>Result\<close> as sums, indexing of
  vectors, \<open>for\<close> loops that push or abort, decimal printing, substring search and
  \<open>HashMap<String, String>\<close>. The lemmas are hints: the simp rules and the collections
  \<open>outcome_iff\<close> and \<open>rust_arith\<close> carry the component proofs.
\<close>

named_theorems outcome_iff \<open>when a computation returns, and with what\<close>
named_theorems rust_arith \<open>characterisations of machine arithmetic on naturals and integers\<close>

subsection \<open>Machine integers\<close>

type_synonym u8 = "8 word"
type_synonym u64 = "64 word"
type_synonym i64 = "64 word"
type_synonym i32 = "32 word"

text \<open>
  Signed integers are words read with \<open>sint\<close>. The casts \<open>as i64\<close> and \<open>as u64\<close> between types
  of one width keep the bits; \<open>as i32\<close> of a \<open>usize\<close> keeps the low 32 bits. A \<open>usize\<close> that
  is a length or an index is a natural number.
\<close>

definition as_i64 :: "u64 \<Rightarrow> i64" where
  "as_i64 w = ucast w"

definition as_u64 :: "i64 \<Rightarrow> u64" where
  "as_u64 w = ucast w"

definition usize_as_i32 :: "nat \<Rightarrow> i32" where
  "usize_as_i32 n = of_nat n"

lemma as_u64_as_i64 [simp]: "as_u64 (as_i64 w) = w"
  by (simp add: as_i64_def as_u64_def)

lemma as_i64_as_u64 [simp]: "as_i64 (as_u64 w) = w"
  by (simp add: as_i64_def as_u64_def)

lemma as_i64_inj [simp]: "as_i64 v = as_i64 w \<longleftrightarrow> v = w"
  by (simp add: as_i64_def)

lemma sint_i64: "sint (w :: i64) = (if uint w < 2 ^ 63 then uint w else uint w - 2 ^ 64)"
proof -
  have lt: "uint w < 2 ^ 64" using uint_lt2p [of w] by simp
  have s: "sint w = signed_take_bit 63 (uint w)" by (simp add: sint_uint)
  show ?thesis
  proof (cases "uint w < 2 ^ 63")
    case True
    have "signed_take_bit 63 (uint w) = uint w"
      using True by (intro signed_take_bit_int_eq_self) (auto intro: order_trans [OF _ uint_ge_0])
    with True show ?thesis by (simp add: s)
  next
    case False
    have "sint w = signed_take_bit 63 (uint w - 2 ^ 64)"
      unfolding s by (rule signed_take_bit_eq_iff_take_bit_eq [THEN iffD2]) (simp add: take_bit_eq_mod)
    also have "\<dots> = uint w - 2 ^ 64"
      using False lt by (intro signed_take_bit_int_eq_self) simp_all
    finally show ?thesis using False by simp
  qed
qed

lemma sint_i64_range: "- (2 ^ 63) \<le> sint (w :: i64)" "sint (w :: i64) < 2 ^ 63"
  using sint_ge [of w] sint_lt [of w] by simp_all

lemma sint_i64_small: "unat (w :: i64) < 2 ^ 63 \<Longrightarrow> sint w = int (unat w)"
  by (simp only: sint_i64 unat_eq_nat_uint nat_less_iff uint_ge_0 int_nat_eq) simp

lemma unat_i64_nonneg: "0 \<le> sint (w :: i64) \<Longrightarrow> int (unat w) = sint w"
  using uint_lt2p [of w] by (simp add: sint_i64 split: if_splits)

lemma sint_as_i64_small [rust_arith]: "unat w < 2 ^ 63 \<Longrightarrow> sint (as_i64 w) = int (unat w)"
  by (simp add: as_i64_def sint_i64_small)

lemma unat_as_u64_nonneg [rust_arith]: "0 \<le> sint w \<Longrightarrow> int (unat (as_u64 w)) = sint w"
  by (simp only: as_u64_def ucast_id unat_i64_nonneg)

text \<open>
  \<open>+\<close>, \<open>-\<close> on machine integers panic on overflow in a build with overflow checks (the
  \<open>dev\<close> profile) and wrap in one without (the \<open>release\<close> profile); \<open>Cargo.toml\<close> overrides
  neither, so both are possible and the profile is an argument of the model.
\<close>

datatype profile = Debug | Release

datatype panic =
    IndexOutOfBounds
  | ArithmeticOverflow
  | RemainderByZero
  | RuntimeNesting
  | UnwrapFailed

type_synonym 'a outcome = "panic + 'a"

definition add_u64 :: "profile \<Rightarrow> u64 \<Rightarrow> u64 \<Rightarrow> u64 outcome" where
  "add_u64 p a b =
     (if p = Debug \<and> 2 ^ 64 \<le> unat a + unat b then Inl ArithmeticOverflow else Inr (a + b))"

definition sub_i64 :: "profile \<Rightarrow> i64 \<Rightarrow> i64 \<Rightarrow> i64 outcome" where
  "sub_i64 p a b =
     (if p = Debug \<and> \<not> (- (2 ^ 63) \<le> sint a - sint b \<and> sint a - sint b < 2 ^ 63)
      then Inl ArithmeticOverflow else Inr (a - b))"

definition mul_u64 :: "profile \<Rightarrow> u64 \<Rightarrow> u64 \<Rightarrow> u64 outcome" where
  "mul_u64 p a b =
     (if p = Debug \<and> 2 ^ 64 \<le> unat a * unat b then Inl ArithmeticOverflow else Inr (a * b))"

lemma add_u64_Release [simp]: "add_u64 Release a b = Inr (a + b)"
  by (simp add: add_u64_def)

lemma unat_add_u64 [rust_arith]:
  "unat a + unat b < 2 ^ 64 \<Longrightarrow> unat (a + b :: u64) = unat a + unat b"
  by (subst unat_add_lem [symmetric]) simp

lemma add_u64_exact: "unat a + unat b < 2 ^ 64 \<Longrightarrow> add_u64 p a b = Inr (a + b)"
  by (simp add: add_u64_def)

lemma sint_sub_i64 [rust_arith]:
  assumes "- (2 ^ 63) \<le> sint a - sint b" and "sint a - sint b < 2 ^ 63"
  shows "sint (a - b :: i64) = sint a - sint b"
proof -
  have "sint (a - b) = signed_take_bit 63 (sint a - sint b)"
    by (simp add: sint_word_ariths)
  with assms show ?thesis by (simp add: signed_take_bit_int_eq_self)
qed

subsection \<open>Results and panics\<close>

text \<open>
  \<open>Result<T, E>\<close> is \<open>'e + 'a\<close>; a computation that may panic is \<open>'a outcome\<close>. \<open>and_then\<close> is
  the early return both have: the \<open>?\<close> operator on the first, unwinding on the second.
\<close>

definition and_then :: "'e + 'a \<Rightarrow> ('a \<Rightarrow> 'e + 'b) \<Rightarrow> 'e + 'b" where
  "and_then m f = (case m of Inl e \<Rightarrow> Inl e | Inr x \<Rightarrow> f x)"

lemma and_then_simps [simp]:
  "and_then (Inl e) f = Inl e"
  "and_then (Inr x) f = f x"
  by (simp_all add: and_then_def)

lemma and_then_Inr_iff [outcome_iff]:
  "and_then m f = Inr y \<longleftrightarrow> (\<exists>x. m = Inr x \<and> f x = Inr y)"
  by (cases m) simp_all

lemma and_then_Inl_iff [outcome_iff]:
  "and_then m f = Inl e \<longleftrightarrow> m = Inl e \<or> (\<exists>x. m = Inr x \<and> f x = Inl e)"
  by (cases m) simp_all

lemma and_then_cong [fundef_cong]:
  "m = m' \<Longrightarrow> (\<And>x. m' = Inr x \<Longrightarrow> f x = f' x) \<Longrightarrow> and_then m f = and_then m' f'"
  by (cases m') simp_all

definition map_err :: "('e \<Rightarrow> 'f) \<Rightarrow> 'e + 'a \<Rightarrow> 'f + 'a" where
  "map_err f m = (case m of Inl e \<Rightarrow> Inl (f e) | Inr x \<Rightarrow> Inr x)"

lemma map_err_simps [simp]:
  "map_err f (Inl e) = Inl (f e)"
  "map_err f (Inr x) = Inr x"
  by (simp_all add: map_err_def)

lemma map_err_Inr_iff [outcome_iff]: "map_err f m = Inr x \<longleftrightarrow> m = Inr x"
  by (cases m) simp_all

lemma map_err_Inl_iff [outcome_iff]: "map_err f m = Inl d \<longleftrightarrow> (\<exists>e. m = Inl e \<and> d = f e)"
  by (cases m) auto

text \<open>\<open>v[i]\<close> panics when the index is out of bounds.\<close>

definition vec_index :: "'a list \<Rightarrow> nat \<Rightarrow> 'a outcome" where
  "vec_index xs i = (if i < length xs then Inr (xs ! i) else Inl IndexOutOfBounds)"

lemma vec_index_Inr_iff [outcome_iff]: "vec_index xs i = Inr x \<longleftrightarrow> i < length xs \<and> x = xs ! i"
  by (auto simp: vec_index_def)

lemma vec_index_Inl_iff [outcome_iff]: "vec_index xs i = Inl e \<longleftrightarrow> length xs \<le> i \<and> e = IndexOutOfBounds"
  by (auto simp: vec_index_def)

lemma vec_index_in [simp]: "i < length xs \<Longrightarrow> vec_index xs i = Inr (xs ! i)"
  by (simp add: vec_index_def)

lemma vec_index_out [simp]: "length xs \<le> i \<Longrightarrow> vec_index xs i = Inl IndexOutOfBounds"
  by (simp add: vec_index_def)

text \<open>
  A \<open>for\<close> loop that pushes one value per element and is left at the first failure.
\<close>

fun collect :: "('a \<Rightarrow> 'e + 'b) \<Rightarrow> 'a list \<Rightarrow> 'e + 'b list" where
  "collect f [] = Inr []"
| "collect f (x # xs) = and_then (f x) (\<lambda>y. and_then (collect f xs) (\<lambda>ys. Inr (y # ys)))"

lemma collect_Inr_iff:
  "collect f xs = Inr ys \<longleftrightarrow> list_all2 (\<lambda>x y. f x = Inr y) xs ys"
  by (induction xs arbitrary: ys) (auto simp: outcome_iff list_all2_Cons1)

lemma collect_Inl_iff:
  "collect f xs = Inl e \<longleftrightarrow>
   (\<exists>i < length xs. f (xs ! i) = Inl e \<and> (\<forall>j < i. \<exists>y. f (xs ! j) = Inr y))"
proof (induction xs)
  case Nil
  then show ?case by simp
next
  case (Cons a xs)
  have "collect f (a # xs) = Inl e \<longleftrightarrow> f a = Inl e \<or> (\<exists>y. f a = Inr y) \<and> collect f xs = Inl e"
    by (cases "f a") (auto simp: outcome_iff)
  with Cons show ?case by (auto simp: Ex_less_Suc2 All_less_Suc2 simp del: collect.simps)
qed

lemma collect_first_error:
  "collect f ys = Inr vs \<Longrightarrow> f x = Inl e \<Longrightarrow> collect f (ys @ x # zs) = Inl e"
  by (induction ys arbitrary: vs) (auto simp: outcome_iff)

lemma collect_error_split:
  "collect f xs = Inl e \<Longrightarrow>
   \<exists>ys x zs. xs = ys @ x # zs \<and> (\<exists>vs. collect f ys = Inr vs) \<and> f x = Inl e"
proof (induction xs)
  case Nil
  then show ?case by simp
next
  case (Cons a xs)
  show ?case
  proof (cases "f a")
    case (Inl d)
    with Cons.prems show ?thesis by (intro exI [of _ "[]"]) simp
  next
    case (Inr v)
    with Cons obtain ys x zs where "xs = ys @ x # zs" "\<exists>vs. collect f ys = Inr vs" "f x = Inl e"
      by (auto simp: outcome_iff)
    with Inr show ?thesis by (intro exI [of _ "a # ys"]) auto
  qed
qed

lemma collect_Inl_split:
  "collect f xs = Inl e \<longleftrightarrow>
     (\<exists>ys x zs. xs = ys @ x # zs \<and> (\<exists>vs. collect f ys = Inr vs) \<and> f x = Inl e)"
  using collect_error_split collect_first_error by metis

lemma collect_returns_iff: "(\<exists>ys. collect f xs = Inr ys) \<longleftrightarrow> (\<forall>x \<in> set xs. \<exists>y. f x = Inr y)"
  by (induction xs) (auto simp: outcome_iff)

lemma collect_length: "collect f xs = Inr ys \<Longrightarrow> length ys = length xs"
  by (auto simp: collect_Inr_iff dest: list_all2_lengthD)

text \<open>When every failure of the body is the same, the loop is a map behind one test.\<close>

lemma collect_uniform:
  assumes "\<And>x. f x = (if ok x then Inr (g x) else Inl e)"
  shows "collect f xs = (if list_all ok xs then Inr (map g xs) else Inl e)"
  by (induction xs) (auto simp: assms)

lemma collect_enumerate:
  assumes "\<And>p. f p = (if ok (snd p) then Inr (g p) else Inl e)"
  shows "collect f (List.enumerate n xs) =
    (if list_all ok xs then Inr (map g (List.enumerate n xs)) else Inl e)"
  by (induction xs arbitrary: n) (auto simp: assms)

lemma collect_map: "collect (\<lambda>x. Inr (g x)) xs = Inr (map g xs)"
  by (induction xs) simp_all

subsection \<open>Decimal printing and substring search\<close>

definition digit :: "nat \<Rightarrow> char" where
  "digit d = ''0123456789'' ! d"

fun dec :: "nat \<Rightarrow> string" where
  "dec n = (if n < 10 then [digit n] else dec (n div 10) @ [digit (n mod 10)])"

declare dec.simps [simp del]

definition u64_to_string :: "u64 \<Rightarrow> string" where
  "u64_to_string w = dec (unat w)"

definition u8_to_string :: "u8 \<Rightarrow> string" where
  "u8_to_string w = dec (unat w)"

text \<open>The value a decimal string denotes.\<close>

definition undec :: "string \<Rightarrow> nat" where
  "undec s = foldl (\<lambda>a c. 10 * a + (of_char c - 48)) 0 s"

lemma digit_cases: "d < 10 \<Longrightarrow> of_char (digit d) = (48 + d :: nat)"
  by (auto simp: digit_def numeral_eq_Suc less_Suc_eq)

lemma undec_dec [simp]: "undec (dec n) = n"
proof (induction n rule: dec.induct)
  case (1 n)
  show ?case
  proof (cases "n < 10")
    case True
    then show ?thesis by (subst dec.simps) (simp add: undec_def digit_cases)
  next
    case False
    then have "undec (dec n) = 10 * undec (dec (n div 10)) + n mod 10"
      by (subst dec.simps) (simp add: undec_def digit_cases)
    with "1.IH" False show ?thesis by simp
  qed
qed

lemma length_dec: "0 < k \<Longrightarrow> n < 10 ^ k \<Longrightarrow> length (dec n) \<le> k"
proof (induction n arbitrary: k rule: dec.induct)
  case (1 n)
  show ?case
  proof (cases "n < 10")
    case True
    with "1.prems" show ?thesis by (subst dec.simps) simp
  next
    case False
    with "1.prems" obtain j where k: "k = Suc j" "0 < j"
      by (cases k; cases "k - 1") auto
    with "1.prems" have "n div 10 < 10 ^ j" by (simp add: div_less_iff_less_mult mult.commute)
    with "1.IH" False k show ?thesis by (subst dec.simps) simp
  qed
qed

lemma length_u8_to_string: "length (u8_to_string w) \<le> 3"
proof -
  have "unat w < 256" using unsigned_less [of w] by simp
  then show ?thesis unfolding u8_to_string_def by (intro length_dec) simp_all
qed

definition str_contains :: "string \<Rightarrow> string \<Rightarrow> bool" where
  "str_contains s pat = list_ex (prefix pat) (suffixes s)"

lemma str_contains_iff: "str_contains s pat \<longleftrightarrow> sublist pat s"
  by (auto simp: str_contains_def list_ex_iff sublist_altdef')

text \<open>
  A printer is readable when some reader inverts it; then distinct values never print alike.
\<close>

locale printable =
  fixes show_value :: "'a \<Rightarrow> string"
    and read_value :: "string \<Rightarrow> 'a"
  assumes read_show: "read_value (show_value x) = x"
begin

lemma show_inj: "show_value x = show_value y \<longleftrightarrow> x = y"
  by (metis read_show)

lemma read_all: "map read_value (map show_value xs) = xs"
  by (induction xs) (simp_all add: read_show)

end

interpretation u64_text: printable u64_to_string "\<lambda>s. of_nat (undec s)"
  by unfold_locales (simp add: u64_to_string_def)

subsection \<open>HashMap\<close>

text \<open>
  A \<open>HashMap<String, String>\<close> is an association list with distinct keys, in the order an
  iterator would give (which the source does not fix, so no property depends on it).
\<close>

type_synonym hash_map = "(string \<times> string) list"

definition hm_insert :: "string \<Rightarrow> string \<Rightarrow> hash_map \<Rightarrow> hash_map" where
  "hm_insert k v m = AList.update k v m"

definition hm_ok :: "hash_map \<Rightarrow> bool" where
  "hm_ok m = distinct (map fst m)"

locale string_map =
  fixes empty :: 'm
    and insert :: "string \<Rightarrow> string \<Rightarrow> 'm \<Rightarrow> 'm"
    and lookup :: "'m \<Rightarrow> string \<Rightarrow> string option"
    and ok :: "'m \<Rightarrow> bool"
  assumes lookup_empty: "lookup empty = Map.empty"
    and lookup_insert: "lookup (insert k v m) = (lookup m)(k \<mapsto> v)"
    and ok_empty: "ok empty"
    and ok_insert: "ok m \<Longrightarrow> ok (insert k v m)"
begin

lemma map_of_distinct_rev: "distinct (map fst kvs) \<Longrightarrow> map_of (rev kvs) = map_of kvs"
proof (rule map_of_eqI)
  assume "distinct (map fst kvs)"
  then show "\<forall>k \<in> set (map fst (rev kvs)). map_of (rev kvs) k = map_of kvs k"
    by (auto simp: rev_map [symmetric] map_of_eq_Some_iff) 
qed simp

text \<open>Copying entry by entry into a fresh map keeps the contents.\<close>

lemma insert_all_lookup:
  "lookup (fold (\<lambda>(k, v) m. insert k v m) kvs m) = lookup m ++ map_of (rev kvs)"
  by (induction kvs arbitrary: m) (auto simp: lookup_insert)

lemma insert_all_ok: "ok m \<Longrightarrow> ok (fold (\<lambda>(k, v) m. insert k v m) kvs m)"
  by (induction kvs arbitrary: m) (auto simp: ok_insert)

lemma insert_all_copy:
  "distinct (map fst kvs) \<Longrightarrow> lookup (fold (\<lambda>(k, v) m. insert k v m) kvs empty) = map_of kvs"
  by (simp add: insert_all_lookup lookup_empty map_of_distinct_rev)

end

interpretation hm: string_map "[]" hm_insert map_of hm_ok
  by unfold_locales (auto simp: hm_insert_def hm_ok_def update_conv' distinct_update)

lemma mod_in_range [simp]: "(i :: nat) < n \<Longrightarrow> j mod n < n"
  by (rule mod_less_divisor) simp

lemma list_all_update: "list_all P xs \<Longrightarrow> P x \<Longrightarrow> list_all P (xs[i := x])"
  by (auto simp: list_all_iff dest: set_update_subset_insert [THEN subsetD])

lemma mset_rotate [simp]: "mset (rotate k xs) = mset xs"
proof (induction k)
  case (Suc k)
  have "mset (rotate1 ys) = mset ys" for ys :: "'a list" by (cases ys) simp_all
  with Suc show ?case by (simp add: rotate_def)
qed simp

subsection \<open>Cursors that go round a list of endpoints\<close>

text \<open>
  Two components walk a list of endpoints in a circle: the failover of the HTTP clients and
  the reconnection of the WebSocket subscription. The contract both meet: while the cursor is
  \<open>ok\<close>, a step moves it to the next position modulo the number of endpoints and keeps it \<open>ok\<close>.
\<close>

locale cursor_ring =
  fixes step :: "'p \<Rightarrow> 's \<Rightarrow> 's"
    and pos :: "'s \<Rightarrow> nat"
    and count :: "'p \<Rightarrow> nat"
    and ok :: "'p \<Rightarrow> 's \<Rightarrow> bool"
  assumes pos_range: "ok p s \<Longrightarrow> pos s < count p"
    and pos_step: "ok p s \<Longrightarrow> pos (step p s) = Suc (pos s) mod count p"
    and ok_step: "ok p s \<Longrightarrow> ok p (step p s)"
begin

lemma ok_steps: "ok p s \<Longrightarrow> ok p ((step p ^^ k) s)"
  by (induction k) (simp_all add: ok_step)

lemma pos_steps: "ok p s \<Longrightarrow> pos ((step p ^^ k) s) = (pos s + k) mod count p"
proof (induction k)
  case 0
  then show ?case by (simp add: pos_range)
next
  case (Suc k)
  then show ?case by (simp add: pos_step ok_steps mod_Suc_eq)
qed

lemma full_circle: "ok p s \<Longrightarrow> pos ((step p ^^ count p) s) = pos s"
  by (simp add: pos_steps pos_range)

lemma visits_all:
  assumes "ok p s" and "j < count p"
  shows "\<exists>k < count p. pos ((step p ^^ k) s) = j"
proof -
  have lt: "pos s < count p" using assms(1) by (rule pos_range)
  let ?k = "(j + count p - pos s) mod count p"
  have "(pos s + ?k) mod count p = (pos s + (j + count p - pos s)) mod count p"
    by (simp add: mod_add_right_eq)
  also have "\<dots> = j" using lt assms(2) by simp
  finally have "pos ((step p ^^ ?k) s) = j" using assms(1) by (simp add: pos_steps)
  moreover have "?k < count p" using lt by simp
  ultimately show ?thesis by blast
qed

end

end
