(* ===== verification/Sdk_Types.thy ===== *)
theory Sdk_Types
  imports Prelude
begin

section \<open>What the service uses of the Solana SDK\<close>

text \<open>
  The crates \<open>solana-sdk\<close>, \<open>solana-client\<close>, \<open>solana-transaction-status\<close>, \<open>spl-token\<close>,
  \<open>bincode\<close> and \<open>base64\<close> are not part of the repository. Their data appears here with the
  fields and variants the source reads (variants it only meets in a wildcard arm are one
  constructor); their functions are the fields of the record \<open>sdk\<close>, which every definition
  that calls one takes as an argument. Nothing is assumed about their values except in the named
  hypotheses of a property, but each is taken to return: a panic inside a library function is outside
  the model (\<open>is_signer\<close> and \<open>is_maybe_writable\<close> subtract header fields, so this excludes messages whose
  header counts more readonly accounts than accounts).
\<close>

subsection \<open>Keys, messages, transactions\<close>

datatype pubkey = Pubkey "u8 list"

datatype signature = Signature "u8 list"

datatype transaction_error = TransactionError string

record message_header =
  num_required_signatures :: u8
  num_readonly_signed_accounts :: u8
  num_readonly_unsigned_accounts :: u8

record compiled_instruction =
  program_id_index :: u8
  ix_accounts :: "u8 list"
  ix_data :: "u8 list"

record message =
  header :: message_header
  account_keys :: "pubkey list"
  instructions :: "compiled_instruction list"

record transaction =
  signatures :: "signature list"
  tx_message :: message

datatype system_instruction =
    SysCreateAccount u64 u64 pubkey
  | SysTransfer u64
  | SysOther

datatype token_instruction =
    TokTransfer u64
  | TokMintTo u64
  | TokBurn u64
  | TokTransferChecked u64 u8
  | TokOther

subsection \<open>Blocks as the RPC node returns them\<close>

datatype 'a option_serializer = OptSome 'a | OptNone | OptSkip

primrec serializer_option :: "'a option_serializer \<Rightarrow> 'a option" where
  "serializer_option (OptSome x) = Some x"
| "serializer_option OptNone = None"
| "serializer_option OptSkip = None"

record ui_token_amount =
  decimals :: u8
  amount_text :: string

record token_balance =
  account_index :: u8
  balance_mint :: string
  balance_amount :: ui_token_amount

record status_meta =
  meta_err :: "transaction_error option"
  meta_fee :: u64
  pre_balances :: "u64 list"
  post_balances :: "u64 list"
  pre_token_balances :: "token_balance list option_serializer"
  post_token_balances :: "token_balance list option_serializer"
  compute_units_consumed :: "u64 option_serializer"

datatype binary_encoding = Base58 | Base64

datatype encoded_transaction =
    LegacyBinary string
  | Binary string binary_encoding
  | Json string
  | Accounts string

record encoded_transaction_with_meta =
  encoded :: encoded_transaction
  encoded_meta :: "status_meta option"

datatype reward_type = Fee | Rent | Staking | Voting

record reward =
  reward_pubkey :: string
  lamports :: i64
  reward_kind :: "reward_type option"

record ui_block =
  ui_previous_blockhash :: string
  ui_blockhash :: string
  ui_parent_slot :: u64
  ui_transactions :: "encoded_transaction_with_meta list option"
  ui_rewards :: "reward list option"

record slot_info =
  info_slot :: u64
  info_parent :: u64
  info_root :: u64

subsection \<open>Requests and errors of the RPC client\<close>

datatype commitment_config = Processed | Confirmed | Finalized

datatype encoding_option = EncBase64 | EncOther

datatype details_option = DetailsFull | DetailsOther

record rpc_block_config =
  cfg_encoding :: "encoding_option option"
  cfg_transaction_details :: "details_option option"
  cfg_rewards :: "bool option"
  cfg_commitment :: "commitment_config option"
  cfg_max_version :: "u8 option"

text \<open>A client error: whether it is an \<open>RpcError::ForUser(msg)\<close>, and how it prints.\<close>

datatype client_error_kind = ForUser string | OtherKind

datatype client_error = ClientErr (error_kind: client_error_kind) (error_display: string)

subsection \<open>The library functions\<close>

record sdk =
  pubkey_to_string :: "pubkey \<Rightarrow> string"
  signature_to_string :: "signature \<Rightarrow> string"
  tx_error_to_string :: "transaction_error \<Rightarrow> string"
  spl_token_id :: pubkey
  decode_system :: "u8 list \<Rightarrow> system_instruction option"
  unpack_token :: "u8 list \<Rightarrow> token_instruction option"
  is_signer :: "message \<Rightarrow> nat \<Rightarrow> bool"
  is_maybe_writable :: "message \<Rightarrow> nat \<Rightarrow> bool"
  base64_decode :: "string \<Rightarrow> string + u8 list"
  decode_transaction :: "u8 list \<Rightarrow> string + transaction"

text \<open>
  The base58 text of a 32-byte key has 32 to 44 characters; all the source depends on is that
  it is longer than any printed \<open>u8\<close>.
\<close>

definition keys_print_long :: "sdk \<Rightarrow> bool" where
  "keys_print_long K \<longleftrightarrow> (\<forall>k. 32 \<le> length (pubkey_to_string K k))"

end
