(* ===== verification/Rpc_Types.thy ===== *)
theory Rpc_Types
  imports Sdk_Types
begin

section \<open>Types and errors of the RPC layer\<close>

text \<open>
  \<open>rpc/types.rs\<close> (\<open>RpcConfig\<close>, \<open>Block\<close>, \<open>EnrichedTransaction\<close>) and \<open>rpc/error.rs\<close>
  (\<open>RpcError\<close> with the messages its \<open>#[error]\<close> attributes print), and \<open>add\<close> of \<open>lib.rs\<close>.
\<close>

subsection \<open>Configuration and blocks\<close>

record rpc_config =
  cfg_url :: string
  commitment :: commitment_config
  timeout :: u64

definition default_rpc_config :: rpc_config where
  "default_rpc_config =
     \<lparr>cfg_url = ''https://api.mainnet-beta.solana.com'', commitment = Confirmed, timeout = 30\<rparr>"

record enriched_transaction =
  et_signature :: string
  et_slot :: u64
  et_error :: "string option"
  et_meta :: "status_meta option"
  et_transaction :: transaction

record block =
  blk_slot :: u64
  blk_blockhash :: string
  blk_parent_slot :: u64
  blk_timestamp :: i64
  blk_previous_blockhash :: string
  blk_leader :: string
  blk_leader_reward :: "u64 option"
  blk_total_compute_units :: u64
  blk_total_fee :: u64
  blk_transactions :: "enriched_transaction list"

subsection \<open>Errors\<close>

datatype rpc_error =
    ClientError client_error
  | TransportError string
  | InvalidResponse string
  | RateLimitExceeded
  | BlockNotFound u64

type_synonym 'a rpc_result = "rpc_error + 'a"

fun rpc_error_to_string :: "rpc_error \<Rightarrow> string" where
  "rpc_error_to_string (ClientError e) = ''Client error: '' @ error_display e"
| "rpc_error_to_string (TransportError m) = ''Transport error: '' @ m"
| "rpc_error_to_string (InvalidResponse m) = ''Invalid response: '' @ m"
| "rpc_error_to_string RateLimitExceeded = ''Rate limit exceeded''"
| "rpc_error_to_string (BlockNotFound s) = ''Block not found: '' @ u64_to_string s"

subsection \<open>The library root\<close>

definition add :: "profile \<Rightarrow> u64 \<Rightarrow> u64 \<Rightarrow> u64 outcome" where
  "add p left right = add_u64 p left right"

end
