(* ===== verification/Multi_Client.thy ===== *)
theory Multi_Client
  imports Rpc_Types
begin

section \<open>The failover client\<close>

text \<open>
  \<open>MultiClient\<close> of \<open>rpc/client.rs\<close>: a list of RPC clients, one per endpoint, and the index of
  the current one behind \<open>Arc<RwLock<usize>>\<close>, shared by every clone. The shared state is
  \<open>'w sys\<close>: the lock, the set of active subscriptions (used by the subscription component) and
  everything outside the process as a value of type \<open>'w\<close>. An RPC call is a function of the whole
  shared state, so it may also stand for what other tasks do to the lock while this one awaits.
\<close>

record rw_index =
  lock_value :: nat
  poisoned :: bool

record 'w sys =
  current :: rw_index
  active_subscriptions :: "string set"
  outside :: 'w

record 'c multi_client =
  endpoints :: "string list"
  clients :: "'c list"
  mc_config :: rpc_config

type_synonym ('w, 'a) effect = "'w sys \<Rightarrow> 'a \<times> 'w sys"

definition fresh_lock :: rw_index where
  "fresh_lock = \<lparr>lock_value = 0, poisoned = False\<rparr>"

text \<open>
  \<open>MultiClient::new\<close>: the SDK's client constructor is the argument \<open>mk\<close>. The result carries the
  fresh lock that \<open>Arc::new(RwLock::new(0))\<close> allocates.
\<close>

fun build_clients :: "(string \<Rightarrow> u64 \<Rightarrow> commitment_config \<Rightarrow> 'c) \<Rightarrow> rpc_config \<Rightarrow> string list \<Rightarrow> 'c list" where
  "build_clients mk cfg [] = []"
| "build_clients mk cfg (e # es) = mk e (timeout cfg) (commitment cfg) # build_clients mk cfg es"

definition multi_client_new ::
    "(string \<Rightarrow> u64 \<Rightarrow> commitment_config \<Rightarrow> 'c) \<Rightarrow> string list \<Rightarrow> rpc_config \<Rightarrow>
     ('c multi_client \<times> rw_index) rpc_result" where
  "multi_client_new mk es cfg =
     (if es = [] then Inl (InvalidResponse ''no rpc endpoints provided'')
      else Inr (\<lparr>endpoints = es, clients = build_clients mk cfg es, mc_config = cfg\<rparr>, fresh_lock))"

definition default_block_config :: "'c multi_client \<Rightarrow> rpc_block_config" where
  "default_block_config mc =
     \<lparr>cfg_encoding = Some EncBase64, cfg_transaction_details = Some DetailsFull,
      cfg_rewards = Some True, cfg_commitment = Some (commitment (mc_config mc)),
      cfg_max_version = Some 0\<rparr>"

definition POISONED :: string where
  "POISONED = ''poisoned lock: another task failed inside''"

text \<open>
  A read guard does not poison the lock when its holder panics; a write guard does. Acquiring a
  poisoned lock is an error that both operations turn into \<open>InvalidResponse\<close>.
\<close>

definition current_client :: "'c multi_client \<Rightarrow> rw_index \<Rightarrow> 'c rpc_result outcome" where
  "current_client mc l =
     (if poisoned l then Inr (Inl (InvalidResponse (''Failed to acquire read lock: '' @ POISONED)))
      else and_then (vec_index (clients mc) (lock_value l)) (\<lambda>c. Inr (Inr c)))"

definition next_client :: "'c multi_client \<Rightarrow> rw_index \<Rightarrow> 'c rpc_result outcome \<times> rw_index" where
  "next_client mc l =
     (if poisoned l then
        (Inr (Inl (InvalidResponse (''Failed to acquire write lock: '' @ POISONED))), l)
      else if length (clients mc) = 0 then (Inl RemainderByZero, l\<lparr>poisoned := True\<rparr>)
      else
        let i = (lock_value l + 1) mod length (clients mc); l' = l\<lparr>lock_value := i\<rparr> in
        (case vec_index (clients mc) i of
           Inl p \<Rightarrow> (Inl p, l'\<lparr>poisoned := True\<rparr>)
         | Inr c \<Rightarrow> (Inr (Inr c), l')))"

text \<open>The loop of \<open>execute_with_failover\<close>, entered with \<open>attempts\<close> failures behind it.\<close>

function failover_loop ::
    "'c multi_client \<Rightarrow> ('c \<Rightarrow> ('w, 'a rpc_result) effect) \<Rightarrow> nat \<Rightarrow>
     ('w, 'a rpc_result outcome) effect" where
  "failover_loop mc operation attempts s =
     (case (if attempts = 0 then (current_client mc (current s), current s)
            else next_client mc (current s)) of
        (Inl p, l) \<Rightarrow> (Inl p, s\<lparr>current := l\<rparr>)
      | (Inr (Inl e), l) \<Rightarrow> (Inr (Inl e), s\<lparr>current := l\<rparr>)
      | (Inr (Inr c), l) \<Rightarrow>
          (case operation c (s\<lparr>current := l\<rparr>) of
             (Inr result, s') \<Rightarrow> (Inr (Inr result), s')
           | (Inl e, s') \<Rightarrow>
               if length (clients mc) \<le> attempts + 1 then (Inr (Inl e), s')
               else failover_loop mc operation (attempts + 1) s'))"
  by pat_completeness auto
termination
  by (relation "measure (\<lambda>(mc, operation, attempts, s). length (clients mc) - attempts)") auto

declare failover_loop.simps [simp del]

definition execute_with_failover ::
    "'c multi_client \<Rightarrow> ('c \<Rightarrow> ('w, 'a rpc_result) effect) \<Rightarrow> ('w, 'a rpc_result outcome) effect" where
  "execute_with_failover mc operation s = failover_loop mc operation 0 s"

subsection \<open>Construction\<close>

lemma build_clients_map: "build_clients mk cfg es = map (\<lambda>e. mk e (timeout cfg) (commitment cfg)) es"
  by (induction es) simp_all

definition lock_ok :: "'c multi_client \<Rightarrow> rw_index \<Rightarrow> bool" where
  "lock_ok mc l \<longleftrightarrow> \<not> poisoned l \<and> lock_value l < length (clients mc)"

lemma multi_client_new_Inr:
  "multi_client_new mk es cfg = Inr (mc, l) \<Longrightarrow>
   es \<noteq> [] \<and> l = fresh_lock \<and> mc_config mc = cfg \<and> endpoints mc = es \<and>
   clients mc = map (\<lambda>e. mk e (timeout cfg) (commitment cfg)) es \<and> lock_ok mc l"
  by (auto simp: multi_client_new_def build_clients_map lock_ok_def fresh_lock_def split: if_splits)

subsection \<open>The lock\<close>

lemma current_client_ok [simp]:
  "lock_ok mc l \<Longrightarrow> current_client mc l = Inr (Inr (clients mc ! lock_value l))"
  by (simp add: current_client_def lock_ok_def)

definition advance :: "'c multi_client \<Rightarrow> rw_index \<Rightarrow> rw_index" where
  "advance mc l = snd (next_client mc l)"

lemma next_client_ok:
  "lock_ok mc l \<Longrightarrow> next_client mc l =
     (Inr (Inr (clients mc ! ((lock_value l + 1) mod length (clients mc)))),
      l\<lparr>lock_value := (lock_value l + 1) mod length (clients mc)\<rparr>)"
  by (auto simp: next_client_def lock_ok_def Let_def)

lemma lock_ok_advance: "lock_ok mc l \<Longrightarrow> lock_ok mc (advance mc l)"
  by (simp add: advance_def next_client_ok) (auto simp: lock_ok_def)

interpretation http_ring: cursor_ring advance lock_value "\<lambda>mc. length (clients mc)" lock_ok
  by unfold_locales (auto simp: lock_ok_advance, auto simp: advance_def next_client_ok, simp add: lock_ok_def)

subsection \<open>Failover, whatever other tasks do to the lock\<close>

text \<open>
  The contract of a failover executor, as its callers need it: started in a good state, with
  operations that keep states good, it does not panic, ends in a good state, and its answer is
  one that some client gave to the operation.
\<close>

locale failover =
  fixes exec :: "'p \<Rightarrow> ('c \<Rightarrow> ('w, 'a rpc_result) effect) \<Rightarrow> ('w, 'a rpc_result outcome) effect"
    and members :: "'p \<Rightarrow> 'c set"
    and good :: "'p \<Rightarrow> 'w sys \<Rightarrow> bool"
  assumes exec_answer: "good p s \<Longrightarrow> (\<And>c t. good p t \<Longrightarrow> good p (snd (operation c t))) \<Longrightarrow>
    \<exists>r s'. exec p operation s = (Inr r, s') \<and> good p s' \<and>
      (\<exists>c \<in> members p. \<exists>t. good p t \<and> operation c t = (r, s'))"
begin

lemma exec_good:
  assumes "good p s" and "\<And>c t. good p t \<Longrightarrow> good p (snd (operation c t))"
    and "exec p operation s = (r, s')"
  shows "good p s'"
  using exec_answer [where operation = operation, OF assms(1,2)] assms(3) by auto

lemma exec_no_panic:
  assumes "good p s" and "\<And>c t. good p t \<Longrightarrow> good p (snd (operation c t))"
  shows "fst (exec p operation s) \<noteq> Inl e"
  using exec_answer [where operation = operation, OF assms] by auto

lemma exec_all_answers:
  assumes "good p s" and "\<And>c t. good p t \<Longrightarrow> good p (snd (operation c t))"
    and "\<And>c t. c \<in> members p \<Longrightarrow> good p t \<Longrightarrow> P (fst (operation c t))"
    and "exec p operation s = (Inr r, s')"
  shows "P r"
  using exec_answer [where operation = operation, OF assms(1,2)] assms(3,4) by fastforce

end

definition sys_ok :: "'c multi_client \<Rightarrow> 'w sys \<Rightarrow> bool" where
  "sys_ok mc s \<longleftrightarrow> lock_ok mc (current s)"

lemma failover_loop_answer:
  assumes "sys_ok mc s" and "\<And>c t. sys_ok mc t \<Longrightarrow> sys_ok mc (snd (operation c t))"
  shows "\<exists>r s'. failover_loop mc operation a s = (Inr r, s') \<and> sys_ok mc s' \<and>
    (\<exists>c \<in> set (clients mc). \<exists>t. sys_ok mc t \<and> operation c t = (r, s'))"
  using assms
proof (induction mc operation a s rule: failover_loop.induct)
  case (1 mc operation a s)
  have ok: "lock_ok mc (current s)" using "1.prems"(1) by (simp add: sys_ok_def)
  let ?l = "if a = 0 then current s else advance mc (current s)"
  let ?c = "clients mc ! lock_value ?l"
  have l: "lock_ok mc ?l" using ok by (simp add: lock_ok_advance)
  then have c: "?c \<in> set (clients mc)" by (simp add: lock_ok_def)
  have pick: "(if a = 0 then (current_client mc (current s), current s)
      else next_client mc (current s)) = (Inr (Inr ?c), ?l)"
    using ok by (simp add: next_client_ok advance_def)
  obtain r s' where o: "operation ?c (s\<lparr>current := ?l\<rparr>) = (r, s')" by force
  have t: "sys_ok mc (s\<lparr>current := ?l\<rparr>)" using l by (simp add: sys_ok_def)
  have s': "sys_ok mc s'" using "1.prems"(2) [OF t, of ?c] o by simp
  show ?case
  proof (cases "(\<exists>v. r = Inr v) \<or> length (clients mc) \<le> a + 1")
    case True
    then have "failover_loop mc operation a s = (Inr r, s')"
      by (subst failover_loop.simps) (cases r, auto simp: pick o simp del: if_split)
    with s' c t o show ?thesis by blast
  next
    case False
    then obtain e where e: "r = Inl e" "\<not> length (clients mc) \<le> a + 1" by (cases r) auto
    then have eq: "failover_loop mc operation a s = failover_loop mc operation (a + 1) s'"
      by (subst failover_loop.simps) (simp add: pick o del: if_split)
    show ?thesis
      unfolding eq
      by (rule "1.IH" [OF pick [symmetric] refl refl o [symmetric] e s' "1.prems"(2)])
  qed
qed

interpretation rpc: failover execute_with_failover "\<lambda>mc. set (clients mc)" sys_ok
  by unfold_locales (simp add: execute_with_failover_def failover_loop_answer)

subsection \<open>Failover when nothing else moves the lock\<close>

text \<open>
  The abstract specification: try a list of clients in order until one answers; the result is
  that answer, or the last error, with the number of clients given up on before it.
\<close>

primrec try_in_order ::
    "('c \<Rightarrow> ('w, 'a rpc_result) effect) \<Rightarrow> 'c list \<Rightarrow> 'c \<Rightarrow> 'w sys \<Rightarrow> 'a rpc_result \<times> nat \<times> 'w sys" where
  "try_in_order operation [] c s = (case operation c s of (r, s') \<Rightarrow> (r, 0, s'))"
| "try_in_order operation (d # ds) c s =
     (case operation c s of
        (Inr v, s') \<Rightarrow> (Inr v, 0, s')
      | (Inl e, s') \<Rightarrow> (case try_in_order operation ds d s' of (r, k, s'') \<Rightarrow> (r, Suc k, s'')))"

lemma try_in_order_answer:
  "operation c s = (Inr v, s') \<Longrightarrow> try_in_order operation cs c s = (Inr v, 0, s')"
  by (cases cs) simp_all

text \<open>\<open>m\<close> clients from position \<open>j\<close> on, going round.\<close>

primrec ring_from :: "'c multi_client \<Rightarrow> nat \<Rightarrow> nat \<Rightarrow> 'c list" where
  "ring_from mc j 0 = []"
| "ring_from mc j (Suc m) = clients mc ! (j mod length (clients mc)) # ring_from mc (Suc j) m"

lemma ring_from_map: "ring_from mc j m = map (\<lambda>t. clients mc ! ((j + t) mod length (clients mc))) [0..<m]"
  by (induction m arbitrary: j) (simp_all add: map_upt_Suc del: upt_Suc)

lemma ring_from_cong:
  "i mod length (clients mc) = j mod length (clients mc) \<Longrightarrow> ring_from mc i m = ring_from mc j m"
  by (simp add: ring_from_map) (metis mod_add_left_eq)

lemma ring_from_rotate:
  "j < length (clients mc) \<Longrightarrow> ring_from mc j (length (clients mc)) = rotate j (clients mc)"
  by (rule nth_equalityI) (simp_all add: ring_from_map nth_rotate add.commute)

text \<open>
  An operation that neither reads nor writes the lock: no other task rotates it meanwhile.
\<close>

definition leaves_lock :: "('c \<Rightarrow> ('w, 'r) effect) \<Rightarrow> bool" where
  "leaves_lock operation \<longleftrightarrow>
     (\<forall>c s l. operation c (s\<lparr>current := l\<rparr>) =
        (fst (operation c s), (snd (operation c s))\<lparr>current := l\<rparr>))"

lemma leaves_lockD:
  "leaves_lock operation \<Longrightarrow> operation c s = (r, s') \<Longrightarrow>
   operation c (s\<lparr>current := l\<rparr>) = (r, s'\<lparr>current := l\<rparr>)"
  by (simp add: leaves_lock_def)

lemma failover_retry:
  assumes "leaves_lock operation" and "lock_ok mc l" and "0 < a"
    and "a + Suc m = length (clients mc)"
    and "try_in_order operation (ring_from mc (lock_value l + 2) m)
      (clients mc ! (Suc (lock_value l) mod length (clients mc))) s = (r, k, s')"
  shows "failover_loop mc operation a (s\<lparr>current := l\<rparr>) =
    (Inr r, s'\<lparr>current := l\<lparr>lock_value := (lock_value l + 1 + k) mod length (clients mc)\<rparr>\<rparr>)"
  using assms(2-)
proof (induction m arbitrary: a l s k)
  case 0
  let ?c = "clients mc ! (Suc (lock_value l) mod length (clients mc))"
  obtain q t where o: "operation ?c s = (q, t)" by force
  with 0 have "q = r" "k = 0" "t = s'" by simp_all
  with 0 o show ?case
    by (subst failover_loop.simps)
       (auto simp: next_client_ok leaves_lockD [OF assms(1) o] split: sum.split)
next
  case (Suc m)
  let ?n = "length (clients mc)"
  let ?l = "l\<lparr>lock_value := Suc (lock_value l) mod ?n\<rparr>"
  let ?c = "clients mc ! (Suc (lock_value l) mod ?n)"
  obtain q t where o: "operation ?c s = (q, t)" by force
  note o' = leaves_lockD [OF assms(1) o]
  have l: "lock_ok mc ?l" using Suc.prems(1) by (auto simp: lock_ok_def)
  show ?case
  proof (cases q)
    case (Inr v)
    with Suc.prems(4) o have "r = Inr v" "k = 0" "t = s'" by simp_all
    with Suc.prems(1,2) o' Inr show ?thesis
      by (subst failover_loop.simps) (simp add: next_client_ok)
  next
    case (Inl e)
    with Suc.prems(4) o obtain j where k: "k = Suc j" and
      rest: "try_in_order operation (ring_from mc (Suc (lock_value l + 2)) m)
        (clients mc ! ((lock_value l + 2) mod ?n)) t = (r, j, s')"
      by (auto split: prod.splits)
    have "ring_from mc (Suc (lock_value l + 2)) m = ring_from mc (lock_value ?l + 2) m"
      by (rule ring_from_cong) (simp add: mod_add_left_eq, metis add_Suc mod_add_left_eq add_2_eq_Suc')
    moreover have "(lock_value l + 2) mod ?n = Suc (lock_value ?l) mod ?n" by (simp add: mod_Suc_eq)
    ultimately have "failover_loop mc operation (Suc a) (t\<lparr>current := ?l\<rparr>) =
      (Inr r, s'\<lparr>current := ?l\<lparr>lock_value := (lock_value ?l + 1 + j) mod ?n\<rparr>\<rparr>)"
      using Suc.IH [of ?l "Suc a" t j] Suc.prems(2,3) l rest by simp
    moreover have "(lock_value ?l + 1 + j) mod ?n = (lock_value l + 1 + k) mod ?n"
      using mod_add_left_eq [of "Suc (lock_value l)" ?n "1 + j"] by (simp add: k)
    ultimately show ?thesis
      using Suc.prems Inl
      by (subst failover_loop.simps) (simp add: next_client_ok o')
  qed
qed

lemma failover_in_order:
  assumes "leaves_lock operation" and "lock_ok mc (current s)"
    and "rotate (lock_value (current s)) (clients mc) = c # cs"
    and "try_in_order operation cs c s = (r, k, s')"
  shows "execute_with_failover mc operation s =
    (Inr r, s'\<lparr>current := (current s)
       \<lparr>lock_value := (lock_value (current s) + k) mod length (clients mc)\<rparr>\<rparr>)"
proof -
  let ?n = "length (clients mc)" and ?l = "current s"
  have lt: "lock_value ?l < ?n" using assms(2) by (simp add: lock_ok_def)
  then obtain m where m: "?n = Suc m" by (cases ?n) auto
  have cs: "c = clients mc ! lock_value ?l" "cs = ring_from mc (Suc (lock_value ?l)) m"
    using ring_from_rotate [OF lt] assms(3) lt by (simp_all add: m)
  obtain q t where o: "operation c s = (q, t)" by force
  have t: "t\<lparr>current := ?l\<rparr> = t"
    using leaves_lockD [OF assms(1) o, of ?l] o by simp
  show ?thesis
  proof (cases "(\<exists>v. q = Inr v) \<or> m = 0")
    case True
    then have "try_in_order operation cs c s = (q, 0, t)"
      using o cs by (auto simp: try_in_order_answer)
    then have "r = q" "k = 0" "s' = t" using assms(4) by simp_all
    with True t assms(2) o cs lt show ?thesis
      by (subst execute_with_failover_def, subst failover_loop.simps) (auto simp: m split: sum.split)
  next
    case False
    then obtain e m' where e: "q = Inl e" "m = Suc m'" by (cases q; cases m) auto
    with assms(4) o cs obtain j where k: "k = Suc j" and
      rest: "try_in_order operation (ring_from mc (lock_value ?l + 2) m')
        (clients mc ! (Suc (lock_value ?l) mod ?n)) t = (r, j, s')"
      by (auto split: prod.splits)
    have "failover_loop mc operation 1 (t\<lparr>current := ?l\<rparr>) =
      (Inr r, s'\<lparr>current := ?l\<lparr>lock_value := (lock_value ?l + 1 + j) mod ?n\<rparr>\<rparr>)"
      by (rule failover_retry [OF assms(1,2) _ _ rest]) (simp_all add: m e)
    with e t o cs assms(2) k show ?thesis
      by (subst execute_with_failover_def, subst failover_loop.simps) (simp add: m)
  qed
qed

subsection \<open>Properties\<close>

text \<open>A client of three endpoints and a state of the lock, for the witnesses.\<close>

definition demo_multi_client :: "nat multi_client" where
  "demo_multi_client =
     \<lparr>endpoints = [''a'', ''b'', ''c''], clients = [0, 1, 2], mc_config = default_rpc_config\<rparr>"

definition demo_sys :: "nat \<Rightarrow> 'w \<Rightarrow> 'w sys" where
  "demo_sys i w =
     \<lparr>current = \<lparr>lock_value = i, poisoned = False\<rparr>, active_subscriptions = {}, outside = w\<rparr>"

lemma demo_multi_client_simps [simp]:
  "clients demo_multi_client = [0, 1, 2]" "mc_config demo_multi_client = default_rpc_config"
  by (simp_all add: demo_multi_client_def)

lemma demo_sys_simps [simp]:
  "current (demo_sys i w) = \<lparr>lock_value = i, poisoned = False\<rparr>" "outside (demo_sys i w) = w"
  "active_subscriptions (demo_sys i w) = {}"
  by (simp_all add: demo_sys_def)

lemma demo_sys_ok [simp]: "i < 3 \<Longrightarrow> sys_ok demo_multi_client (demo_sys i w)"
  by (simp add: sys_ok_def lock_ok_def)

text \<open>Construction fails exactly on an empty endpoint list; otherwise there is one client per
  endpoint, in order, built with the configured timeout and commitment, and the shared index
  starts at 0, unpoisoned.\<close>

lemma multi_client_construction:
  "multi_client_new mk es cfg =
     (case es of
        [] \<Rightarrow> Inl (InvalidResponse ''no rpc endpoints provided'')
      | _ \<Rightarrow> Inr (\<lparr>endpoints = es, clients = map (\<lambda>e. mk e (timeout cfg) (commitment cfg)) es,
               mc_config = cfg\<rparr>, \<lparr>lock_value = 0, poisoned = False\<rparr>))"
  by (simp add: multi_client_new_def build_clients_map fresh_lock_def split: list.split)

text \<open>C23: Failover is safe whatever other tasks do to the shared index, as long as they keep it in
  range: it does not panic (so the lock is never poisoned), it leaves the index in range, and its
  answer is the answer some client gave.\<close>

theorem failover_safe:
  assumes "sys_ok mc s" and "\<And>c t. sys_ok mc t \<Longrightarrow> sys_ok mc (snd (operation c t))"
  shows "\<exists>r s'. execute_with_failover mc operation s = (Inr r, s') \<and> sys_ok mc s' \<and>
    (\<exists>c \<in> set (clients mc). \<exists>t. sys_ok mc t \<and> operation c t = (r, s'))"
  by (rule rpc.exec_answer [OF assms])

theorem failover_safe_witness:
  "\<exists>r s'. execute_with_failover demo_multi_client (\<lambda>c t. (Inr c, demo_sys 1 ())) (demo_sys 2 ()) = (Inr r, s') \<and>
     sys_ok demo_multi_client s'"
  using failover_safe [of demo_multi_client "demo_sys 2 ()" "\<lambda>c t. (Inr c, demo_sys 1 ())"] by auto

text \<open>C2: When no other task moves the index meanwhile, failover implements its specification: it
  tries the clients from the current one on, going round, stops at the first answer, else returns
  the last error, and leaves the index on the client that gave the result.\<close>

theorem failover_refines_try_in_order:
  assumes "leaves_lock operation" and "sys_ok mc s"
    and "rotate (lock_value (current s)) (clients mc) = c # cs"
  shows "execute_with_failover mc operation s =
    (case try_in_order operation cs c s of (r, k, s') \<Rightarrow>
      (Inr r, s'\<lparr>current := (current s)
         \<lparr>lock_value := (lock_value (current s) + k) mod length (clients mc)\<rparr>\<rparr>))"
  using assms failover_in_order [OF assms(1) _ assms(3)]
  by (auto simp: sys_ok_def split: prod.split)

theorem failover_refines_try_in_order_witness:
  "execute_with_failover demo_multi_client
     (\<lambda>c t. (if c = 1 then Inr c else Inl RateLimitExceeded, t)) (demo_sys 2 ()) =
   (Inr (Inr 1), demo_sys 1 ())"
  by (subst failover_refines_try_in_order [where c = 2 and cs = "[0, 1]"])
     (simp_all add: leaves_lock_def sys_ok_def lock_ok_def rotate_def numeral_2_eq_2 demo_sys_def)

text \<open>A probe that fails on every client and records which it was given.\<close>

definition failing_probe :: "('c \<Rightarrow> rpc_error) \<Rightarrow> 'c \<Rightarrow> ('c list, 'a rpc_result) effect" where
  "failing_probe err c s = (Inl (err c), s\<lparr>outside := outside s @ [c]\<rparr>)"

lemma try_failing_probe:
  "try_in_order (failing_probe err) cs c s =
     (Inl (err (last (c # cs))), length cs, s\<lparr>outside := outside s @ c # cs\<rparr>)"
  by (induction cs arbitrary: c s) (simp_all add: failing_probe_def)

text \<open>When every client fails, each is tried exactly once, in order from the current one, the
  error returned is that of the last, and the index ends one place before where it started.\<close>

lemma failover_tries_every_client:
  assumes "sys_ok mc s"
  shows "\<exists>cs. cs = rotate (lock_value (current s)) (clients mc) \<and> mset cs = mset (clients mc) \<and>
    execute_with_failover mc (failing_probe err) s =
      (Inr (Inl (err (last cs))),
       s\<lparr>outside := outside s @ cs,
         current := (current s)\<lparr>lock_value :=
           (lock_value (current s) + (length (clients mc) - 1)) mod length (clients mc)\<rparr>\<rparr>)"
proof -
  have ok: "lock_ok mc (current s)" using assms by (simp add: sys_ok_def)
  then obtain c cs where cs: "rotate (lock_value (current s)) (clients mc) = c # cs"
    by (cases "rotate (lock_value (current s)) (clients mc)") (auto simp: lock_ok_def)
  have len: "length cs = length (clients mc) - 1"
    using arg_cong [OF cs, of length] by simp
  have "leaves_lock (failing_probe err)" by (simp add: leaves_lock_def failing_probe_def)
  from failover_in_order [OF this ok cs try_failing_probe] show ?thesis
    by (simp add: cs len flip: cs)
qed

lemma failover_tries_every_client_witness:
  "snd (execute_with_failover demo_multi_client
     (failing_probe (\<lambda>c. RateLimitExceeded) :: nat \<Rightarrow> (nat list, unit rpc_result) effect) (demo_sys 1 [])) =
   demo_sys 0 [1, 2, 0]"
  using failover_tries_every_client [where ?'b = unit, of demo_multi_client "demo_sys 1 []"
      "\<lambda>c. RateLimitExceeded"]
  by (auto simp: demo_sys_def sys_ok_def lock_ok_def)

end
