(* ===== verification/Known_Programs.thy ===== *)
theory Known_Programs
  imports Rpc_Types
begin

section \<open>Programs and categories\<close>

text \<open>
  The data of \<open>service/parser.rs\<close>: the well-known program ids (each a literal of the source, under
  a name), the static table \<open>KNOWN_PROGRAMS\<close>, the category enums and the names their derived
  \<open>Debug\<close> prints.
\<close>

subsection \<open>Known programs\<close>

definition SYSTEM_PROGRAM :: string where
  "SYSTEM_PROGRAM = ''11111111111111111111111111111111''"

definition TOKEN_PROGRAM :: string where
  "TOKEN_PROGRAM = ''TokenkegQfeZyiNwAJbNbGKPFXCWuBvf9Ss623VQ5DA''"

definition ASSOCIATED_TOKEN_PROGRAM :: string where
  "ASSOCIATED_TOKEN_PROGRAM = ''ATokenGPvbdGVxr1b2hvZbsiqW5xWH25efTNsLJA8knL''"

definition METAPLEX_METADATA :: string where
  "METAPLEX_METADATA = ''meta5YZgf5YscZgqDCqXv8oQL7UzDMhXQ6VBHxGgqYf''"

definition METAPLEX_CANDY_MACHINE :: string where
  "METAPLEX_CANDY_MACHINE = ''p1exdMJcjVao65QdewkaZRUnU6VPSXhus9n2GzWfh98''"

definition SERUM_DEX :: string where
  "SERUM_DEX = ''9xQeWvG816bUx9EPjHmaT23yvVM2ZWbrrpZb9PusVFin''"

definition RAYDIUM_POOL :: string where
  "RAYDIUM_POOL = ''675kPX9MHTjS2zt1qfr1NYHuzeLXfQM9H24wFSUt1Mp8''"

definition RAYDIUM_ROUTER :: string where
  "RAYDIUM_ROUTER = ''5quBtoiQqxF9Jv6KYKctB59NT3gtJD2Y65kdnB1Uev3h''"

definition RAYDIUM_CLMM :: string where
  "RAYDIUM_CLMM = ''CAMMCzo5YL8w4VFF8KVHrK22GGUsp5VTaW7grrKgrWqK''"

definition JUPITER_V4 :: string where
  "JUPITER_V4 = ''JUP4Fb2cqiRUcaTHdrPC8h2gNsA2ETXiPDD33WcGuJB''"

definition JUPITER_V6 :: string where
  "JUPITER_V6 = ''JUP6LkbZbjS1jKKwapdHNy74zcZ3tLUZoi5QNyVTaRk''"

lemmas program_ids =
  SYSTEM_PROGRAM_def TOKEN_PROGRAM_def ASSOCIATED_TOKEN_PROGRAM_def METAPLEX_METADATA_def
  METAPLEX_CANDY_MACHINE_def SERUM_DEX_def RAYDIUM_POOL_def RAYDIUM_ROUTER_def RAYDIUM_CLMM_def
  JUPITER_V4_def JUPITER_V6_def

text \<open>The static table, built by successive insertions as \<open>lazy_static!\<close> does.\<close>

definition KNOWN_PROGRAMS :: hash_map where
  "KNOWN_PROGRAMS =
     fold (\<lambda>(k, v) m. hm_insert k v m)
       [(SYSTEM_PROGRAM, ''System Program''),
        (TOKEN_PROGRAM, ''Token Program''),
        (ASSOCIATED_TOKEN_PROGRAM, ''Associated Token Program''),
        (METAPLEX_METADATA, ''Metaplex Token Metadata''),
        (METAPLEX_CANDY_MACHINE, ''Metaplex Candy Machine''),
        (SERUM_DEX, ''Serum DEX v3''),
        (RAYDIUM_POOL, ''Raydium Liquidity Pool V4''),
        (RAYDIUM_ROUTER, ''Raydium Router V1''),
        (RAYDIUM_CLMM, ''Raydium Concentrated LP''),
        (JUPITER_V4, ''Jupiter V4''),
        (JUPITER_V6, ''Jupiter V6'')] []"

lemma program_ids_distinct:
  "distinct [SYSTEM_PROGRAM, TOKEN_PROGRAM, ASSOCIATED_TOKEN_PROGRAM, METAPLEX_METADATA,
     METAPLEX_CANDY_MACHINE, SERUM_DEX, RAYDIUM_POOL, RAYDIUM_ROUTER, RAYDIUM_CLMM,
     JUPITER_V4, JUPITER_V6]"
  by (simp add: program_ids)

lemmas program_ids_apart [simp] = program_ids_distinct [simplified]

lemma token_not_system [simp]: "TOKEN_PROGRAM \<noteq> SYSTEM_PROGRAM"
  by (rule not_sym) simp

subsection \<open>Categories\<close>

datatype system_program_type = SpCreateAccount | SpTransfer | SpAssign | SpOther

datatype token_program_type = TpTransfer | TpMintTo | TpBurn | TpCreateAccount | TpOther

datatype dex_program_type =
    SerumNewOrder
  | SerumMatchOrder
  | SerumCancelOrder
  | RaydiumSwap
  | RaydiumAddLiquidity
  | RaydiumRemoveLiquidity
  | JupiterSwap
  | DexOther

datatype nft_program_type = NftMint | NftTransfer | NftList | NftOther

datatype transaction_category =
    SystemProgram system_program_type
  | TokenProgram token_program_type
  | DexProgram dex_program_type
  | NFTProgram nft_program_type
  | UnknownCategory

datatype token_type = SPL | NFT

record token_transfer_info =
  from_address :: string
  to_address :: string
  amount :: u64
  mint :: string
  info_token_type :: token_type

text \<open>The derived \<open>Debug\<close> of a unit variant prints its name.\<close>

fun debug_system :: "system_program_type \<Rightarrow> string" where
  "debug_system SpCreateAccount = ''CreateAccount''"
| "debug_system SpTransfer = ''Transfer''"
| "debug_system SpAssign = ''Assign''"
| "debug_system SpOther = ''Other''"

fun debug_token :: "token_program_type \<Rightarrow> string" where
  "debug_token TpTransfer = ''Transfer''"
| "debug_token TpMintTo = ''MintTo''"
| "debug_token TpBurn = ''Burn''"
| "debug_token TpCreateAccount = ''CreateAccount''"
| "debug_token TpOther = ''Other''"

fun debug_dex :: "dex_program_type \<Rightarrow> string" where
  "debug_dex SerumNewOrder = ''SerumNewOrder''"
| "debug_dex SerumMatchOrder = ''SerumMatchOrder''"
| "debug_dex SerumCancelOrder = ''SerumCancelOrder''"
| "debug_dex RaydiumSwap = ''RaydiumSwap''"
| "debug_dex RaydiumAddLiquidity = ''RaydiumAddLiquidity''"
| "debug_dex RaydiumRemoveLiquidity = ''RaydiumRemoveLiquidity''"
| "debug_dex JupiterSwap = ''JupiterSwap''"
| "debug_dex DexOther = ''Other''"

fun debug_nft :: "nft_program_type \<Rightarrow> string" where
  "debug_nft NftMint = ''Mint''"
| "debug_nft NftTransfer = ''Transfer''"
| "debug_nft NftList = ''List''"
| "debug_nft NftOther = ''Other''"

end
