(* ===== verification/Demo_Sdk.thy ===== *)
theory Demo_Sdk
  imports Known_Programs
begin

section \<open>A concrete SDK\<close>

text \<open>
  One concrete value of the SDK record, on which the witnesses evaluate: five keys that print as
  well-known programs and every other key as a long text, a two-byte encoding of the system
  transfer and of the token instructions, and transactions numbered by their only byte. It states
  nothing about the real SDK.
\<close>

definition demo_key_text :: "pubkey \<Rightarrow> string" where
  "demo_key_text k =
     (case k of Pubkey bs \<Rightarrow>
        if bs = [0] then SYSTEM_PROGRAM
        else if bs = [1] then TOKEN_PROGRAM
        else if bs = [2] then JUPITER_V6
        else if bs = [3] then SERUM_DEX
        else if bs = [4] then METAPLEX_METADATA
        else replicate 32 (CHR ''z'') @ concat (map u8_to_string bs))"

fun demo_decode_system :: "u8 list \<Rightarrow> system_instruction option" where
  "demo_decode_system [t, x] = (if t = 2 then Some (SysTransfer (ucast x)) else Some SysOther)"
| "demo_decode_system _ = None"

fun demo_unpack_token :: "u8 list \<Rightarrow> token_instruction option" where
  "demo_unpack_token [t, x] =
     (if t = 3 then Some (TokTransfer (ucast x)) else if t = 7 then Some (TokMintTo (ucast x)) else Some TokOther)"
| "demo_unpack_token [t, x, d] =
     (if t = 12 then Some (TokTransferChecked (ucast x) d) else Some TokOther)"
| "demo_unpack_token _ = None"

definition demo_header :: message_header where
  "demo_header = \<lparr>num_required_signatures = 1, num_readonly_signed_accounts = 0,
     num_readonly_unsigned_accounts = 1\<rparr>"

definition demo_ix :: "u8 \<Rightarrow> u8 list \<Rightarrow> u8 list \<Rightarrow> compiled_instruction" where
  "demo_ix program accs data = \<lparr>program_id_index = program, ix_accounts = accs, ix_data = data\<rparr>"

text \<open>Keys 0 to 4 are the known programs, keys 5 to 7 ordinary accounts.\<close>

definition demo_message :: "compiled_instruction list \<Rightarrow> message" where
  "demo_message ixs =
     \<lparr>header = demo_header,
      account_keys = [Pubkey [0], Pubkey [1], Pubkey [2], Pubkey [3], Pubkey [4],
        Pubkey [5], Pubkey [6], Pubkey [7]],
      instructions = ixs\<rparr>"

definition demo_transaction :: transaction where
  "demo_transaction =
     \<lparr>signatures = [Signature [9]], tx_message = demo_message [demo_ix 1 [5, 6, 7] [12, 1, 0]]\<rparr>"

definition demo_sdk :: sdk where
  "demo_sdk =
     \<lparr>pubkey_to_string = demo_key_text,
      signature_to_string = (\<lambda>sg. ''signature''),
      tx_error_to_string = (\<lambda>e. ''error''),
      spl_token_id = Pubkey [1],
      decode_system = demo_decode_system,
      unpack_token = demo_unpack_token,
      is_signer = (\<lambda>m i. i < unat (num_required_signatures (header m))),
      is_maybe_writable = (\<lambda>m i. i < 2),
      base64_decode = (\<lambda>s. if s = ''bad'' then Inl ''invalid'' else Inr [0]),
      decode_transaction = (\<lambda>bs. if bs = [0] then Inr demo_transaction else Inl ''eof'')\<rparr>"

lemma demo_sdk_simps [simp]:
  "pubkey_to_string demo_sdk = demo_key_text"
  "signature_to_string demo_sdk sg = ''signature''"
  "tx_error_to_string demo_sdk e = ''error''"
  "spl_token_id demo_sdk = Pubkey [1]"
  "decode_system demo_sdk = demo_decode_system"
  "unpack_token demo_sdk = demo_unpack_token"
  "base64_decode demo_sdk s = (if s = ''bad'' then Inl ''invalid'' else Inr [0])"
  "decode_transaction demo_sdk bs = (if bs = [0] then Inr demo_transaction else Inl ''eof'')"
  by (simp_all add: demo_sdk_def)

lemma demo_keys_long: "keys_print_long demo_sdk"
  by (auto simp: keys_print_long_def demo_key_text_def program_ids split: pubkey.split)

lemma demo_message_simps [simp]:
  "account_keys (demo_message ixs) = [Pubkey [0], Pubkey [1], Pubkey [2], Pubkey [3], Pubkey [4],
     Pubkey [5], Pubkey [6], Pubkey [7]]"
  "instructions (demo_message ixs) = ixs"
  by (simp_all add: demo_message_def)

lemma demo_ix_simps [simp]:
  "program_id_index (demo_ix program accs data) = program"
  "ix_accounts (demo_ix program accs data) = accs"
  "ix_data (demo_ix program accs data) = data"
  by (simp_all add: demo_ix_def)

lemma demo_transaction_simps [simp]:
  "signatures demo_transaction = [Signature [9]]"
  "tx_message demo_transaction = demo_message [demo_ix 1 [5, 6, 7] [12, 1, 0]]"
  by (simp_all add: demo_transaction_def)

lemma demo_key_text_simps [simp]:
  "demo_key_text (Pubkey [0]) = SYSTEM_PROGRAM"
  "demo_key_text (Pubkey [1]) = TOKEN_PROGRAM"
  "demo_key_text (Pubkey [2]) = JUPITER_V6"
  "demo_key_text (Pubkey [3]) = SERUM_DEX"
  "demo_key_text (Pubkey [4]) = METAPLEX_METADATA"
  by (simp_all add: demo_key_text_def)

end
