(* ===== verification/Rpc_Client.thy ===== *)
theory Rpc_Client
  imports Multi_Client Demo_Sdk
begin

section \<open>The RPC client\<close>

text \<open>
  \<open>SolanaRpcClient\<close> of \<open>rpc/client.rs\<close>: fetching blocks, block times and slot ranges through the
  failover client, totals and conversion of the transactions of a block, and dropping a client.
  The methods of the SDK's \<open>RpcClient\<close> are the fields of \<open>rpc_api\<close>.
\<close>

record ('c, 'w) rpc_api =
  api_get_block :: "'c \<Rightarrow> u64 \<Rightarrow> rpc_block_config \<Rightarrow> ('w, client_error + ui_block) effect"
  api_get_block_time :: "'c \<Rightarrow> u64 \<Rightarrow> ('w, client_error + i64) effect"
  api_get_slot :: "'c \<Rightarrow> commitment_config \<Rightarrow> ('w, client_error + u64) effect"
  api_get_blocks ::
    "'c \<Rightarrow> u64 \<Rightarrow> u64 option \<Rightarrow> commitment_config \<Rightarrow> ('w, client_error + u64 list) effect"

record 'c solana_client =
  sc_client :: "'c multi_client"
  ws_endpoints :: "string list"

definition solana_client_new ::
    "(string \<Rightarrow> u64 \<Rightarrow> commitment_config \<Rightarrow> 'c) \<Rightarrow> string list \<Rightarrow> string list \<Rightarrow> rpc_config \<Rightarrow>
     ('c solana_client \<times> rw_index \<times> string set) rpc_result" where
  "solana_client_new mk rpc_eps ws_eps cfg =
     and_then (multi_client_new mk rpc_eps cfg)
       (\<lambda>(mc, l). Inr (\<lparr>sc_client = mc, ws_endpoints = ws_eps\<rparr>, l, {}))"

text \<open>\<open>map_err\<close> under an await, and the \<open>?\<close> operator between awaits.\<close>

definition map_err_eff :: "('e \<Rightarrow> 'f) \<Rightarrow> ('w, 'e + 'a) effect \<Rightarrow> ('w, 'f + 'a) effect" where
  "map_err_eff f m s = (case m s of (r, s') \<Rightarrow> (map_err f r, s'))"

definition run_then ::
    "('w, 'a rpc_result outcome) effect \<Rightarrow> ('a \<Rightarrow> ('w, 'b rpc_result outcome) effect) \<Rightarrow>
     ('w, 'b rpc_result outcome) effect" where
  "run_then m f s =
     (case m s of
        (Inl p, s') \<Rightarrow> (Inl p, s')
      | (Inr (Inl e), s') \<Rightarrow> (Inr (Inl e), s')
      | (Inr (Inr x), s') \<Rightarrow> f x s')"

subsection \<open>Slots and block times\<close>

definition block_error :: "u64 \<Rightarrow> client_error \<Rightarrow> rpc_error" where
  "block_error slot e =
     (case error_kind e of
        ForUser msg \<Rightarrow>
          if str_contains msg ''Block not available'' then BlockNotFound slot else ClientError e
      | OtherKind \<Rightarrow> ClientError e)"

definition get_latest_slot ::
    "('c, 'w) rpc_api \<Rightarrow> 'c solana_client \<Rightarrow> ('w, u64 rpc_result outcome) effect" where
  "get_latest_slot api sc =
     execute_with_failover (sc_client sc) (\<lambda>c.
       map_err_eff ClientError (api_get_slot api c (commitment (mc_config (sc_client sc)))))"

definition get_block_time ::
    "('c, 'w) rpc_api \<Rightarrow> 'c solana_client \<Rightarrow> u64 \<Rightarrow> ('w, i64 rpc_result outcome) effect" where
  "get_block_time api sc slot =
     execute_with_failover (sc_client sc) (\<lambda>c.
       map_err_eff (block_error slot) (api_get_block_time api c slot))"

definition get_blocks ::
    "profile \<Rightarrow> ('c, 'w) rpc_api \<Rightarrow> 'c solana_client \<Rightarrow> u64 \<Rightarrow> u64 option \<Rightarrow>
     ('w, u64 list rpc_result outcome) effect" where
  "get_blocks p api sc start_slot end_slot s =
     (case (case end_slot of Some e \<Rightarrow> Inr e | None \<Rightarrow> add_u64 p start_slot 1000) of
        Inl e \<Rightarrow> (Inl e, s)
      | Inr end_slot' \<Rightarrow>
          execute_with_failover (sc_client sc) (\<lambda>c.
            map_err_eff ClientError
              (api_get_blocks api c start_slot (Some end_slot')
                (commitment (mc_config (sc_client sc))))) s)"

subsection \<open>Converting the transactions of a block\<close>

definition convert_transaction ::
    "sdk \<Rightarrow> u64 \<Rightarrow> encoded_transaction_with_meta \<Rightarrow> enriched_transaction rpc_result" where
  "convert_transaction K slot tx =
     and_then
       (case encoded tx of
          Binary data _ \<Rightarrow>
            and_then (map_err (\<lambda>e. InvalidResponse (''Failed to decode base64: '' @ e))
              (base64_decode K data)) (\<lambda>decoded.
            and_then (map_err (\<lambda>e. InvalidResponse (''Failed to deserialize transaction: '' @ e))
              (decode_transaction K decoded)) (\<lambda>t.
            (case signatures t of
               [] \<Rightarrow> Inl (InvalidResponse ''No signature found in transaction'')
             | sg # _ \<Rightarrow> Inr (signature_to_string K sg, t))))
        | Json _ \<Rightarrow> Inl (InvalidResponse ''JSON transaction format not supported'')
        | _ \<Rightarrow> Inl (InvalidResponse ''Unsupported transaction encoding''))
       (\<lambda>(sig, t). Inr
         \<lparr>et_signature = sig, et_slot = slot,
          et_error = Option.bind (encoded_meta tx) (\<lambda>m. map_option (tx_error_to_string K) (meta_err m)),
          et_meta = encoded_meta tx, et_transaction = t\<rparr>)"

definition convert_transactions ::
    "sdk \<Rightarrow> u64 \<Rightarrow> encoded_transaction_with_meta list option \<Rightarrow>
     enriched_transaction list rpc_result" where
  "convert_transactions K slot transactions =
     (case transactions of
        None \<Rightarrow> Inr []
      | Some txs \<Rightarrow> collect (convert_transaction K slot) txs)"

subsection \<open>Blocks\<close>

definition tx_fee :: "encoded_transaction_with_meta \<Rightarrow> u64" where
  "tx_fee tx = (case encoded_meta tx of Some m \<Rightarrow> meta_fee m | None \<Rightarrow> 0)"

definition tx_units :: "encoded_transaction_with_meta \<Rightarrow> u64" where
  "tx_units tx =
     (case Option.bind (encoded_meta tx) (\<lambda>m. serializer_option (compute_units_consumed m)) of
        Some u \<Rightarrow> u
      | None \<Rightarrow> 0)"

fun total_units ::
    "profile \<Rightarrow> encoded_transaction_with_meta list \<Rightarrow> u64 \<times> u64 \<Rightarrow> (u64 \<times> u64) outcome" where
  "total_units p [] sums = Inr sums"
| "total_units p (tx # txs) (fee_sum, cu_sum) =
     and_then (add_u64 p fee_sum (tx_fee tx)) (\<lambda>fee_sum'.
     and_then (add_u64 p cu_sum (tx_units tx)) (\<lambda>cu_sum'.
       total_units p txs (fee_sum', cu_sum')))"

definition fee_reward :: "reward list option \<Rightarrow> reward option" where
  "fee_reward rewards = Option.bind rewards (List.find (\<lambda>r. reward_kind r = Some Fee))"

definition build_block ::
    "profile \<Rightarrow> sdk \<Rightarrow> u64 \<Rightarrow> ui_block \<Rightarrow> i64 \<Rightarrow> block rpc_result outcome" where
  "build_block p K slot b timestamp =
     (let leader_reward = map_option (\<lambda>r. as_u64 (lamports r)) (fee_reward (ui_rewards b)) in
      and_then
        (case ui_transactions b of Some txs \<Rightarrow> total_units p txs (0, 0) | None \<Rightarrow> Inr (0, 0))
        (\<lambda>(total_fee, total_cu).
          Inr (and_then (convert_transactions K slot (ui_transactions b)) (\<lambda>transactions.
            Inr \<lparr>blk_slot = slot, blk_blockhash = ui_blockhash b, blk_parent_slot = ui_parent_slot b,
              blk_timestamp = timestamp, blk_previous_blockhash = ui_previous_blockhash b,
              blk_leader = (case fee_reward (ui_rewards b) of Some r \<Rightarrow> reward_pubkey r | None \<Rightarrow> []),
              blk_leader_reward = leader_reward, blk_total_compute_units = total_cu,
              blk_total_fee = total_fee, blk_transactions = transactions\<rparr>))))"

definition get_block ::
    "profile \<Rightarrow> sdk \<Rightarrow> ('c, 'w) rpc_api \<Rightarrow> 'c solana_client \<Rightarrow> u64 \<Rightarrow>
     ('w, block rpc_result outcome) effect" where
  "get_block p K api sc slot =
     run_then
       (execute_with_failover (sc_client sc) (\<lambda>c.
         map_err_eff (block_error slot)
           (api_get_block api c slot (default_block_config (sc_client sc)))))
       (\<lambda>b. run_then (get_block_time api sc slot) (\<lambda>timestamp s. (build_block p K slot b timestamp, s)))"

subsection \<open>Dropping a client\<close>

text \<open>
  The tokio runtime as \<open>drop\<close> meets it: whether \<open>Handle::try_current\<close> finds one, and whether
  \<open>block_on\<close> may be called on this thread (it panics inside an asynchronous task).
\<close>

record tokio_context =
  inside_runtime :: bool
  block_on_allowed :: bool

definition unsubscribe_all :: "'w sys \<Rightarrow> 'w sys" where
  "unsubscribe_all s = s\<lparr>active_subscriptions := {}\<rparr>"

definition drop_client :: "tokio_context \<Rightarrow> ('w, unit outcome) effect" where
  "drop_client rt s =
     (if inside_runtime rt
      then (if block_on_allowed rt then (Inr (), unsubscribe_all s) else (Inl RuntimeNesting, s))
      else (Inr (), s))"

subsection \<open>Totals\<close>

definition fee_total :: "encoded_transaction_with_meta list \<Rightarrow> nat" where
  "fee_total txs = (\<Sum>tx \<leftarrow> txs. unat (tx_fee tx))"

definition unit_total :: "encoded_transaction_with_meta list \<Rightarrow> nat" where
  "unit_total txs = (\<Sum>tx \<leftarrow> txs. unat (tx_units tx))"

lemma totals_simps [simp]:
  "fee_total [] = 0" "fee_total (tx # txs) = unat (tx_fee tx) + fee_total txs"
  "unit_total [] = 0" "unit_total (tx # txs) = unat (tx_units tx) + unit_total txs"
  by (simp_all add: fee_total_def unit_total_def)

text \<open>
  A checked sum fails exactly when the exact total does not fit: the partial sums only grow.
\<close>

lemma total_units_acc:
  "total_units p txs (f, c) =
     (if p = Debug \<and> (2 ^ 64 \<le> unat f + fee_total txs \<or> 2 ^ 64 \<le> unat c + unit_total txs)
      then Inl ArithmeticOverflow
      else Inr (f + of_nat (fee_total txs), c + of_nat (unit_total txs)))"
proof (induction txs arbitrary: f c)
  case Nil
  have "unat f < 2 ^ 64" "unat c < 2 ^ 64" using unsigned_less [of f] unsigned_less [of c] by simp_all
  then show ?case by (simp add: not_le)
next
  case (Cons tx txs)
  show ?case
  proof (cases "p = Debug \<and> (2 ^ 64 \<le> unat f + unat (tx_fee tx) \<or> 2 ^ 64 \<le> unat c + unat (tx_units tx))")
    case True
    then show ?thesis by (auto simp: add_u64_def)
  next
    case False
    then have "total_units p (tx # txs) (f, c) = total_units p txs (f + tx_fee tx, c + tx_units tx)"
      by (auto simp: add_u64_def)
    moreover have "p = Debug \<Longrightarrow> unat (f + tx_fee tx) = unat f + unat (tx_fee tx) \<and>
        unat (c + tx_units tx) = unat c + unat (tx_units tx)"
      using False by (auto simp: not_le intro!: unat_add_u64)
    ultimately show ?thesis using Cons.IH by (auto simp: add.assoc)
  qed
qed

lemma total_units_eq:
  "total_units p txs (0, 0) =
     (if p = Debug \<and> (2 ^ 64 \<le> fee_total txs \<or> 2 ^ 64 \<le> unit_total txs)
      then Inl ArithmeticOverflow else Inr (of_nat (fee_total txs), of_nat (unit_total txs)))"
  by (simp add: total_units_acc)

subsection \<open>Which transactions convert\<close>

text \<open>The transaction a wire transaction decodes to, if the code accepts it.\<close>

definition decoded :: "sdk \<Rightarrow> encoded_transaction_with_meta \<Rightarrow> (signature \<times> transaction) option" where
  "decoded K tx =
     (case encoded tx of
        Binary data _ \<Rightarrow>
          (case base64_decode K data of
             Inr bytes \<Rightarrow>
               (case decode_transaction K bytes of
                  Inr t \<Rightarrow> (case signatures t of sg # _ \<Rightarrow> Some (sg, t) | [] \<Rightarrow> None)
                | Inl _ \<Rightarrow> None)
           | Inl _ \<Rightarrow> None)
      | _ \<Rightarrow> None)"

definition enrich :: "sdk \<Rightarrow> u64 \<Rightarrow> encoded_transaction_with_meta \<Rightarrow> signature \<times> transaction \<Rightarrow> enriched_transaction" where
  "enrich K slot tx = (\<lambda>(sg, t).
     \<lparr>et_signature = signature_to_string K sg, et_slot = slot,
      et_error = Option.bind (encoded_meta tx) (\<lambda>m. map_option (tx_error_to_string K) (meta_err m)),
      et_meta = encoded_meta tx, et_transaction = t\<rparr>)"

lemma convert_transaction_Inr_iff:
  "convert_transaction K slot tx = Inr et \<longleftrightarrow>
     (\<exists>d. decoded K tx = Some d \<and> et = enrich K slot tx d)"
  by (auto simp: convert_transaction_def decoded_def enrich_def
      split: encoded_transaction.splits sum.splits list.splits)

lemma convert_transaction_Inl:
  "convert_transaction K slot tx = Inl e \<Longrightarrow> decoded K tx = None \<and> (\<exists>msg. e = InvalidResponse msg)"
  by (auto simp: convert_transaction_def decoded_def
      split: encoded_transaction.splits sum.splits list.splits)

lemma collect_convert:
  "collect (convert_transaction K slot) txs = Inr ets \<longleftrightarrow>
     list_all (\<lambda>tx. decoded K tx \<noteq> None) txs \<and>
     ets = map (\<lambda>tx. enrich K slot tx (the (decoded K tx))) txs"
proof (induction txs arbitrary: ets)
  case Nil
  then show ?case by auto
next
  case (Cons tx txs)
  then show ?case
    by (cases "decoded K tx") (auto simp: outcome_iff convert_transaction_Inr_iff)
qed

lemma collect_convert_error:
  "collect (convert_transaction K slot) txs = Inl e \<Longrightarrow> \<exists>msg. e = InvalidResponse msg"
  by (induction txs) (auto simp: outcome_iff dest: convert_transaction_Inl)

subsection \<open>Blocks\<close>

lemma build_block_panic_iff:
  "build_block p K slot b ts = Inl e \<longleftrightarrow>
     e = ArithmeticOverflow \<and> p = Debug \<and>
     (\<exists>txs. ui_transactions b = Some txs \<and> (2 ^ 64 \<le> fee_total txs \<or> 2 ^ 64 \<le> unit_total txs))"
  by (auto simp: build_block_def outcome_iff total_units_eq split: option.splits if_splits)

lemma build_block_Inr:
  assumes "build_block p K slot b ts = Inr (Inr blk)"
  shows "blk_slot blk = slot" and "blk_blockhash blk = ui_blockhash b"
    and "blk_parent_slot blk = ui_parent_slot b" and "blk_timestamp blk = ts"
    and "blk_previous_blockhash blk = ui_previous_blockhash b"
    and "blk_transactions blk =
      map (\<lambda>tx. enrich K slot tx (the (decoded K tx))) (case ui_transactions b of Some txs \<Rightarrow> txs | None \<Rightarrow> [])"
    and "blk_total_fee blk = of_nat (fee_total (case ui_transactions b of Some txs \<Rightarrow> txs | None \<Rightarrow> []))"
    and "blk_total_compute_units blk =
      of_nat (unit_total (case ui_transactions b of Some txs \<Rightarrow> txs | None \<Rightarrow> []))"
  using assms
  by (auto simp: build_block_def outcome_iff total_units_eq convert_transactions_def collect_convert
      split: option.splits if_splits)

lemma build_block_transactions:
  "build_block p K slot b ts = Inr (Inr blk) \<Longrightarrow>
   convert_transactions K slot (ui_transactions b) = Inr (blk_transactions blk)"
  by (auto simp: build_block_def outcome_iff split: option.splits)

lemma build_block_error:
  "build_block p K slot b ts = Inr (Inl err) \<Longrightarrow> \<exists>msg. err = InvalidResponse msg"
  by (auto simp: build_block_def outcome_iff convert_transactions_def
      dest: collect_convert_error split: option.splits)

text \<open>
  What is asked of the outside world: no call breaks the shared lock. Other tasks touch the lock
  through \<open>current_client\<close> and \<open>next_client\<close> only, which keep it good.
\<close>

definition api_ok :: "('c, 'w) rpc_api \<Rightarrow> 'c multi_client \<Rightarrow> bool" where
  "api_ok api mc \<longleftrightarrow>
     (\<forall>c s. sys_ok mc s \<longrightarrow>
        (\<forall>slot cfg. sys_ok mc (snd (api_get_block api c slot cfg s))) \<and>
        (\<forall>slot. sys_ok mc (snd (api_get_block_time api c slot s))) \<and>
        (\<forall>cm. sys_ok mc (snd (api_get_slot api c cm s))) \<and>
        (\<forall>a b cm. sys_ok mc (snd (api_get_blocks api c a b cm s))))"

lemma snd_map_err_eff [simp]: "snd (map_err_eff f m s) = snd (m s)"
  by (simp add: map_err_eff_def split: prod.split)

lemma fst_map_err_eff [simp]: "fst (map_err_eff f m s) = map_err f (fst (m s))"
  by (simp add: map_err_eff_def split: prod.split)

lemma fetch_answer:
  assumes "sys_ok mc s" and "\<And>c t. sys_ok mc t \<Longrightarrow> sys_ok mc (snd (call c t))"
  shows "\<exists>r s'. execute_with_failover mc (\<lambda>c. map_err_eff f (call c)) s = (Inr r, s') \<and> sys_ok mc s' \<and>
    (\<exists>c \<in> set (clients mc). \<exists>t. sys_ok mc t \<and> r = map_err f (fst (call c t)))"
proof -
  from rpc.exec_answer [OF assms(1), of "\<lambda>c. map_err_eff f (call c)"] assms(2)
  obtain r s' c t where x: "execute_with_failover mc (\<lambda>c. map_err_eff f (call c)) s = (Inr r, s')"
      "sys_ok mc s'" "c \<in> set (clients mc)" "sys_ok mc t" "map_err_eff f (call c) t = (r, s')"
    by auto
  moreover have "r = map_err f (fst (call c t))" using x(5) by (metis fst_conv fst_map_err_eff)
  ultimately show ?thesis by blast
qed

lemma get_block_time_answer:
  assumes "sys_ok (sc_client sc) s" and "api_ok api (sc_client sc)"
  shows "\<exists>r s'. get_block_time api sc slot s = (Inr r, s') \<and> sys_ok (sc_client sc) s' \<and>
    (\<exists>c \<in> set (clients (sc_client sc)). \<exists>t.
       r = map_err (block_error slot) (fst (api_get_block_time api c slot t)))"
  unfolding get_block_time_def
  using fetch_answer [OF assms(1), of "\<lambda>c. api_get_block_time api c slot" "block_error slot"] assms(2)
  by (auto simp: api_ok_def)

text \<open>
  What the endpoints of a client can be held to: a block one of them gave for a slot, the time one
  of them gave, an error one of them answered; and a block whose totals do not fit in 64 bits.
\<close>

definition gave_block :: "('c, 'w) rpc_api \<Rightarrow> 'c solana_client \<Rightarrow> u64 \<Rightarrow> ui_block \<Rightarrow> bool" where
  "gave_block api sc slot b \<longleftrightarrow>
     (\<exists>c \<in> set (clients (sc_client sc)). \<exists>t.
        fst (api_get_block api c slot (default_block_config (sc_client sc)) t) = Inr b)"

definition gave_time :: "('c, 'w) rpc_api \<Rightarrow> 'c solana_client \<Rightarrow> u64 \<Rightarrow> i64 \<Rightarrow> bool" where
  "gave_time api sc slot ts \<longleftrightarrow>
     (\<exists>c \<in> set (clients (sc_client sc)). \<exists>t. fst (api_get_block_time api c slot t) = Inr ts)"

definition answered_error :: "('c, 'w) rpc_api \<Rightarrow> 'c solana_client \<Rightarrow> u64 \<Rightarrow> client_error \<Rightarrow> bool" where
  "answered_error api sc slot e \<longleftrightarrow>
     (\<exists>c \<in> set (clients (sc_client sc)). \<exists>t.
        fst (api_get_block api c slot (default_block_config (sc_client sc)) t) = Inl e \<or>
        fst (api_get_block_time api c slot t) = Inl e)"

definition totals_overflow :: "ui_block \<Rightarrow> bool" where
  "totals_overflow b \<longleftrightarrow>
     (\<exists>txs. ui_transactions b = Some txs \<and>
        (2 ^ 64 \<le> (\<Sum>tx \<leftarrow> txs. unat (tx_fee tx)) \<or> 2 ^ 64 \<le> (\<Sum>tx \<leftarrow> txs. unat (tx_units tx))))"

lemma build_block_overflow:
  "build_block p K slot b ts = Inl e \<longleftrightarrow> e = ArithmeticOverflow \<and> p = Debug \<and> totals_overflow b"
  by (simp add: build_block_panic_iff totals_overflow_def fee_total_def unit_total_def)

text \<open>
  Every outcome of \<open>get_block\<close>: the mapped error of some client's answer, or what \<open>build_block\<close>
  makes of one client's block and one client's block time.
\<close>

lemma get_block_cases:
  assumes "sys_ok (sc_client sc) s" and "api_ok api (sc_client sc)"
  shows "\<exists>r s'. get_block p K api sc slot s = (r, s') \<and> sys_ok (sc_client sc) s' \<and>
    ((\<exists>e. answered_error api sc slot e \<and> r = Inr (Inl (block_error slot e))) \<or>
     (\<exists>b ts. r = build_block p K slot b ts \<and> gave_block api sc slot b \<and> gave_time api sc slot ts))"
proof -
  let ?mc = "sc_client sc" and ?cfg = "default_block_config (sc_client sc)"
  obtain r s1 c t where b: "execute_with_failover ?mc
        (\<lambda>c. map_err_eff (block_error slot) (api_get_block api c slot ?cfg)) s = (Inr r, s1)"
      "sys_ok ?mc s1" "c \<in> set (clients ?mc)"
      "r = map_err (block_error slot) (fst (api_get_block api c slot ?cfg t))"
    using fetch_answer [OF assms(1), of "\<lambda>c. api_get_block api c slot ?cfg" "block_error slot"] assms(2)
    by (auto simp: api_ok_def)
  obtain q s2 c' t' where ts: "get_block_time api sc slot s1 = (Inr q, s2)" "sys_ok ?mc s2"
      "c' \<in> set (clients ?mc)" "q = map_err (block_error slot) (fst (api_get_block_time api c' slot t'))"
    using get_block_time_answer [OF b(2) assms(2)] by blast
  show ?thesis
  proof (cases "fst (api_get_block api c slot ?cfg t)")
    case (Inl e)
    then have "answered_error api sc slot e" using b(3) by (auto simp: answered_error_def)
    with b Inl show ?thesis by (auto simp: get_block_def run_then_def)
  next
    case blk: (Inr blk)
    then have blk': "gave_block api sc slot blk" using b(3) by (auto simp: gave_block_def)
    show ?thesis
    proof (cases "fst (api_get_block_time api c' slot t')")
      case (Inl e)
      then have "answered_error api sc slot e" using ts(3) by (auto simp: answered_error_def)
      with b ts blk Inl show ?thesis by (auto simp: get_block_def run_then_def)
    next
      case (Inr time)
      then have "gave_time api sc slot time" using ts(3) by (auto simp: gave_time_def)
      moreover have "get_block p K api sc slot s = (build_block p K slot blk time, s2)"
        using b(1,4) ts(1,4) by (simp add: get_block_def run_then_def blk Inr)
      ultimately show ?thesis using blk' ts(2) by blast
    qed
  qed
qed

lemma get_blocks_answer:
  assumes "sys_ok (sc_client sc) s" and "api_ok api (sc_client sc)"
  shows "\<exists>r s'. get_blocks p api sc a (Some b) s = (Inr r, s') \<and> sys_ok (sc_client sc) s'"
  using fetch_answer [OF assms(1), of "\<lambda>c. api_get_blocks api c a (Some b) (commitment (mc_config (sc_client sc)))"
      ClientError] assms(2)
  by (auto simp: get_blocks_def api_ok_def)

lemma get_block_slot:
  "get_block p K api sc slot s = (Inr (Inr blk), s') \<Longrightarrow> blk_slot blk = slot"
  by (auto simp: get_block_def run_then_def build_block_Inr(1) split: prod.splits sum.splits)

text \<open>The fields of a block, spelled out; \<open>fee_payee\<close> is the first reward of kind \<open>Fee\<close>.\<close>

definition transactions_of :: "ui_block \<Rightarrow> encoded_transaction_with_meta list" where
  "transactions_of b = (case ui_transactions b of Some txs \<Rightarrow> txs | None \<Rightarrow> [])"

definition fee_payee :: "ui_block \<Rightarrow> reward option" where
  "fee_payee b =
     (case ui_rewards b of
        Some rs \<Rightarrow> (case filter (\<lambda>r. reward_kind r = Some Fee) rs of r # _ \<Rightarrow> Some r | [] \<Rightarrow> None)
      | None \<Rightarrow> None)"

definition block_made_of :: "sdk \<Rightarrow> u64 \<Rightarrow> ui_block \<Rightarrow> i64 \<Rightarrow> block \<Rightarrow> bool" where
  "block_made_of K slot b ts blk \<longleftrightarrow>
     blk_slot blk = slot \<and> blk_blockhash blk = ui_blockhash b \<and>
     blk_previous_blockhash blk = ui_previous_blockhash b \<and> blk_parent_slot blk = ui_parent_slot b \<and>
     blk_timestamp blk = ts \<and>
     blk_leader blk = (case fee_payee b of Some r \<Rightarrow> reward_pubkey r | None \<Rightarrow> []) \<and>
     blk_leader_reward blk = map_option (\<lambda>r. as_u64 (lamports r)) (fee_payee b) \<and>
     blk_total_fee blk = of_nat (\<Sum>tx \<leftarrow> transactions_of b. unat (tx_fee tx)) \<and>
     blk_total_compute_units blk = of_nat (\<Sum>tx \<leftarrow> transactions_of b. unat (tx_units tx)) \<and>
     list_all (\<lambda>tx. decoded K tx \<noteq> None) (transactions_of b) \<and>
     blk_transactions blk = map (\<lambda>tx. enrich K slot tx (the (decoded K tx))) (transactions_of b)"

lemma find_filter: "List.find P xs = (case filter P xs of x # _ \<Rightarrow> Some x | [] \<Rightarrow> None)"
  by (induction xs) auto

lemma fee_reward_payee: "fee_reward (ui_rewards b) = fee_payee b"
  by (cases "ui_rewards b") (simp_all add: fee_reward_def fee_payee_def find_filter)

lemma convert_transactions_made:
  "convert_transactions K slot (ui_transactions b) = Inr ets \<longleftrightarrow>
     list_all (\<lambda>tx. decoded K tx \<noteq> None) (transactions_of b) \<and>
     ets = map (\<lambda>tx. enrich K slot tx (the (decoded K tx))) (transactions_of b)"
  by (cases "ui_transactions b") (auto simp: convert_transactions_def transactions_of_def collect_convert)

lemma build_block_made:
  assumes "build_block p K slot b ts = Inr (Inr blk)"
  shows "block_made_of K slot b ts blk"
  unfolding block_made_of_def
proof (intro conjI)
  show "blk_leader blk = (case fee_payee b of Some r \<Rightarrow> reward_pubkey r | None \<Rightarrow> [])"
    and "blk_leader_reward blk = map_option (\<lambda>r. as_u64 (lamports r)) (fee_payee b)"
    using assms by (auto simp: build_block_def outcome_iff fee_reward_payee split: option.splits if_splits)
  note made = build_block_transactions [OF assms, unfolded convert_transactions_made]
  show "list_all (\<lambda>tx. decoded K tx \<noteq> None) (transactions_of b)"
    and "blk_transactions blk = map (\<lambda>tx. enrich K slot tx (the (decoded K tx))) (transactions_of b)"
    using made by simp_all
qed (use build_block_Inr [OF assms] in \<open>simp_all add: transactions_of_def fee_total_def unit_total_def\<close>)

text \<open>The error a block is refused for: its first transaction that does not decode.\<close>

definition undecodable :: "sdk \<Rightarrow> u64 \<Rightarrow> ui_block \<Rightarrow> rpc_error \<Rightarrow> bool" where
  "undecodable K slot b err \<longleftrightarrow>
     (\<exists>before tx after msg. transactions_of b = before @ tx # after \<and>
        list_all (\<lambda>t. decoded K t \<noteq> None) before \<and> decoded K tx = None \<and>
        convert_transaction K slot tx = Inl err \<and> err = InvalidResponse msg)"

lemma build_block_undecodable:
  assumes "build_block p K slot b ts = Inr (Inl err)"
  shows "undecodable K slot b err"
proof -
  from assms obtain txs where txs: "ui_transactions b = Some txs" "collect (convert_transaction K slot) txs = Inl err"
    by (auto simp: build_block_def outcome_iff convert_transactions_def split: option.splits)
  then obtain before tx after where tx: "txs = before @ tx # after" "convert_transaction K slot tx = Inl err"
      "\<exists>ys. collect (convert_transaction K slot) before = Inr ys"
    by (auto simp: collect_Inl_split)
  moreover have "list_all (\<lambda>t. decoded K t \<noteq> None) before" using tx(3) by (simp add: collect_convert)
  ultimately show ?thesis
    using txs(1) convert_transaction_Inl [OF tx(2)] by (auto simp: undecodable_def transactions_of_def)
qed

text \<open>What \<open>get_block\<close> makes of a client's error.\<close>

lemma block_error_cases:
  "block_error slot e =
     (if \<exists>msg. error_kind e = ForUser msg \<and> str_contains msg ''Block not available''
      then BlockNotFound slot else ClientError e)"
  by (cases "error_kind e") (simp_all add: block_error_def)

lemma get_block_answer:
  assumes "sys_ok (sc_client sc) s" and "api_ok api (sc_client sc)"
  shows "\<exists>r s'. get_block p K api sc slot s = (r, s') \<and> sys_ok (sc_client sc) s' \<and>
    (case r of
       Inl e \<Rightarrow> e = ArithmeticOverflow \<and> p = Debug \<and> (\<exists>b. gave_block api sc slot b \<and> totals_overflow b)
     | Inr (Inl err) \<Rightarrow>
         (\<exists>e. answered_error api sc slot e \<and>
            err = (if \<exists>msg. error_kind e = ForUser msg \<and> str_contains msg ''Block not available''
                   then BlockNotFound slot else ClientError e)) \<or>
         (\<exists>b. gave_block api sc slot b \<and> undecodable K slot b err)
     | Inr (Inr blk) \<Rightarrow>
         (\<exists>b ts. gave_block api sc slot b \<and> gave_time api sc slot ts \<and> block_made_of K slot b ts blk))"
proof -
  obtain r s' where g: "get_block p K api sc slot s = (r, s')" "sys_ok (sc_client sc) s'"
    "(\<exists>e. answered_error api sc slot e \<and> r = Inr (Inl (block_error slot e))) \<or>
     (\<exists>b ts. r = build_block p K slot b ts \<and> gave_block api sc slot b \<and> gave_time api sc slot ts)"
    using get_block_cases [OF assms, of p K slot] by (elim exE conjE) (rule that)
  from g(3) show ?thesis
  proof (elim disjE exE conjE)
    fix e assume e: "answered_error api sc slot e" "r = Inr (Inl (block_error slot e))"
    show ?thesis
      by (intro exI [of _ r] exI [of _ s'] conjI g(1,2))
        (simp only: e(2) sum.case, intro disjI1 exI [of _ e] conjI e(1) block_error_cases)
  next
    fix b ts assume b: "r = build_block p K slot b ts" "gave_block api sc slot b" "gave_time api sc slot ts"
    consider e where "r = Inl e" | err where "r = Inr (Inl err)" | blk where "r = Inr (Inr blk)"
      by (metis sum.exhaust)
    then show ?thesis
    proof cases
      case 1
      then have "e = ArithmeticOverflow \<and> p = Debug \<and> (\<exists>b. gave_block api sc slot b \<and> totals_overflow b)"
        using b build_block_overflow [of p K slot b ts e] by auto
      with 1 show ?thesis by (intro exI [of _ r] exI [of _ s'] conjI g(1,2)) simp
    next
      case 2
      then have "\<exists>b. gave_block api sc slot b \<and> undecodable K slot b err"
        using b build_block_undecodable [of p K slot b ts err] by auto
      with 2 show ?thesis by (intro exI [of _ r] exI [of _ s'] conjI g(1,2)) simp
    next
      case 3
      then have "\<exists>b ts. gave_block api sc slot b \<and> gave_time api sc slot ts \<and> block_made_of K slot b ts blk"
        using b build_block_made [of p K slot b ts blk] by auto
      with 3 show ?thesis by (intro exI [of _ r] exI [of _ s'] conjI g(1,2)) simp
    qed
  qed
qed

lemma get_block_crash:
  assumes "sys_ok (sc_client sc) s" and "api_ok api (sc_client sc)"
  shows "\<exists>r s'. get_block p K api sc slot s = (r, s') \<and> sys_ok (sc_client sc) s' \<and>
    (\<forall>e. r = Inl e \<longrightarrow>
       e = ArithmeticOverflow \<and> p = Debug \<and> (\<exists>slot b. gave_block api sc slot b \<and> totals_overflow b))"
proof -
  obtain r s' where g: "get_block p K api sc slot s = (r, s')" "sys_ok (sc_client sc) s'"
      "case r of Inl e \<Rightarrow> e = ArithmeticOverflow \<and> p = Debug \<and> (\<exists>b. gave_block api sc slot b \<and> totals_overflow b)
       | Inr _ \<Rightarrow> True"
    using get_block_answer [OF assms, of p K slot] by (force split: sum.splits)
  from g(3) show ?thesis
    by (intro exI [of _ r] exI [of _ s'] conjI g(1,2)) (cases r, auto)
qed

lemma get_block_not_found:
  assumes "sys_ok (sc_client sc) s" and "api_ok api (sc_client sc)"
    and "\<And>c t. c \<in> set (clients (sc_client sc)) \<Longrightarrow>
      \<exists>msg shown. fst (api_get_block api c slot (default_block_config (sc_client sc)) t) =
        Inl (ClientErr (ForUser msg) shown) \<and> str_contains msg ''Block not available''"
  shows "\<exists>s'. get_block p K api sc slot s = (Inr (Inl (BlockNotFound slot)), s') \<and> sys_ok (sc_client sc) s'"
proof -
  let ?mc = "sc_client sc" and ?cfg = "default_block_config (sc_client sc)"
  obtain r s' c t where b: "execute_with_failover ?mc
        (\<lambda>c. map_err_eff (block_error slot) (api_get_block api c slot ?cfg)) s = (Inr r, s')"
      "sys_ok ?mc s'" "c \<in> set (clients ?mc)"
      "r = map_err (block_error slot) (fst (api_get_block api c slot ?cfg t))"
    using fetch_answer [OF assms(1), of "\<lambda>c. api_get_block api c slot ?cfg" "block_error slot"] assms(2)
    by (auto simp: api_ok_def)
  obtain msg shown where "fst (api_get_block api c slot ?cfg t) = Inl (ClientErr (ForUser msg) shown)"
      "str_contains msg ''Block not available''"
    using assms(3) [OF b(3)] by blast
  then have "r = Inl (BlockNotFound slot)" using b(4) by (simp add: block_error_def)
  with b(1,2) show ?thesis by (simp add: get_block_def run_then_def)
qed

subsection \<open>A node for the witnesses\<close>

text \<open>
  A node of three endpoints: the first never has a block, the others have the same block for every
  slot but 7. It does not touch the state.
\<close>

definition demo_missing :: client_error where
  "demo_missing = ClientErr (ForUser ''Block not available for slot'') ''rpc error''"

definition demo_meta :: status_meta where
  "demo_meta = \<lparr>meta_err = None, meta_fee = 5000, pre_balances = [9, 9], post_balances = [4, 9, 1],
     pre_token_balances = OptNone, post_token_balances = OptSkip, compute_units_consumed = OptSome 150\<rparr>"

definition demo_wire :: encoded_transaction_with_meta where
  "demo_wire = \<lparr>encoded = Binary ''ok'' Base64, encoded_meta = Some demo_meta\<rparr>"

definition demo_ui_block :: ui_block where
  "demo_ui_block = \<lparr>ui_previous_blockhash = ''parent'', ui_blockhash = ''hash'', ui_parent_slot = 41,
     ui_transactions = Some [demo_wire, demo_wire],
     ui_rewards = Some [\<lparr>reward_pubkey = ''leader'', lamports = 3, reward_kind = Some Fee\<rparr>]\<rparr>"

definition demo_api :: "(nat, unit) rpc_api" where
  "demo_api =
     \<lparr>api_get_block = (\<lambda>c slot cfg s.
        (if c = 0 \<or> slot = 7 then Inl demo_missing else Inr demo_ui_block, s)),
      api_get_block_time = (\<lambda>c slot s. (Inr 1700000000, s)),
      api_get_slot = (\<lambda>c cm s. (Inr 100, s)),
      api_get_blocks = (\<lambda>c a b cm s. (Inr [a], s))\<rparr>"

definition demo_client :: "nat solana_client" where
  "demo_client = \<lparr>sc_client = demo_multi_client, ws_endpoints = [''ws1'', ''ws2'']\<rparr>"

lemma demo_client_simps [simp]:
  "sc_client demo_client = demo_multi_client" "ws_endpoints demo_client = [''ws1'', ''ws2'']"
  by (simp_all add: demo_client_def)

lemma demo_api_simps [simp]:
  "api_get_block demo_api c slot cfg s =
     (if c = 0 \<or> slot = 7 then Inl demo_missing else Inr demo_ui_block, s)"
  "api_get_block_time demo_api c slot s = (Inr 1700000000, s)"
  "api_get_slot demo_api c cm s = (Inr 100, s)"
  "api_get_blocks demo_api c a b cm s = (Inr [a], s)"
  by (simp_all add: demo_api_def)

lemma demo_api_ok [simp]: "api_ok demo_api demo_multi_client"
  by (simp add: api_ok_def)

definition demo_fetched :: block where
  "demo_fetched = \<lparr>blk_slot = 42, blk_blockhash = ''hash'', blk_parent_slot = 41, blk_timestamp = 1700000000,
     blk_previous_blockhash = ''parent'', blk_leader = ''leader'', blk_leader_reward = Some 3,
     blk_total_compute_units = 300, blk_total_fee = 10000,
     blk_transactions = (let tx = \<lparr>et_signature = ''signature'', et_slot = 42, et_error = None,
       et_meta = Some demo_meta, et_transaction = demo_transaction\<rparr> in [tx, tx])\<rparr>"

lemma demo_build: "build_block Debug demo_sdk 42 demo_ui_block 1700000000 = Inr (Inr demo_fetched)"
  by (simp add: build_block_def demo_ui_block_def demo_fetched_def fee_reward_def as_u64_def demo_wire_def
      Let_def demo_meta_def tx_fee_def tx_units_def add_u64_def convert_transactions_def convert_transaction_def)

lemma demo_get_block_with:
  "get_block p K demo_api demo_client 42 ((demo_sys 1 ())\<lparr>active_subscriptions := a\<rparr>) =
     (build_block p K 42 demo_ui_block 1700000000, (demo_sys 1 ())\<lparr>active_subscriptions := a\<rparr>)"
proof -
  let ?s = "(demo_sys 1 ())\<lparr>active_subscriptions := a\<rparr>"
  have call: "execute_with_failover demo_multi_client (\<lambda>c. map_err_eff f (m c)) ?s = (Inr (Inr v), ?s)"
    if "m 1 ?s = (Inr v, ?s)" for f and m :: "nat \<Rightarrow> (unit, client_error + 'v) effect" and v
    using that
    by (subst execute_with_failover_def, subst failover_loop.simps)
       (simp add: lock_ok_def map_err_eff_def demo_sys_def)
  have "execute_with_failover demo_multi_client (\<lambda>c. map_err_eff (block_error 42)
      (api_get_block demo_api c 42 (default_block_config demo_multi_client))) ?s =
      (Inr (Inr demo_ui_block), ?s)" by (rule call) simp
  moreover have "get_block_time demo_api demo_client 42 ?s = (Inr (Inr 1700000000), ?s)"
    unfolding get_block_time_def demo_client_simps by (rule call) simp
  ultimately show ?thesis by (simp add: get_block_def run_then_def)
qed

lemma demo_get_block:
  "get_block Debug demo_sdk demo_api demo_client 42 ((demo_sys 1 ())\<lparr>active_subscriptions := a\<rparr>) =
     (Inr (Inr demo_fetched), (demo_sys 1 ())\<lparr>active_subscriptions := a\<rparr>)"
  by (simp only: demo_get_block_with demo_build)

subsection \<open>Properties\<close>

text \<open>C28: The totals of a block are the exact sums of the fees and of the compute units over its
  transactions (0 where the metadata or the units are missing), reduced to 64 bits; a build with
  overflow checks panics exactly when one of the two sums does not fit.\<close>

theorem totals_exact_or_overflow:
  "total_units p txs (0, 0) =
     (if p = Debug \<and> (2 ^ 64 \<le> (\<Sum>tx \<leftarrow> txs. unat (tx_fee tx)) \<or> 2 ^ 64 \<le> (\<Sum>tx \<leftarrow> txs. unat (tx_units tx)))
      then Inl ArithmeticOverflow
      else Inr (of_nat (\<Sum>tx \<leftarrow> txs. unat (tx_fee tx)), of_nat (\<Sum>tx \<leftarrow> txs. unat (tx_units tx))))"
  using total_units_eq by (simp only: fee_total_def unit_total_def)

text \<open>C22: Converting the transactions of a block is all or nothing: it succeeds exactly when every
  transaction is base64 of a serialised transaction with a signature, and then keeps their number
  and order; else the whole block is an \<open>InvalidResponse\<close>, the error of its first bad transaction.\<close>

theorem convert_transactions_all_or_nothing:
  "(convert_transactions K slot (Some txs) = Inr ets \<longleftrightarrow>
      list_all (\<lambda>tx. decoded K tx \<noteq> None) txs \<and>
      ets = map (\<lambda>tx. enrich K slot tx (the (decoded K tx))) txs) \<and>
   (convert_transactions K slot (Some txs) = Inl e \<longleftrightarrow>
      (\<exists>before tx after. txs = before @ tx # after \<and> list_all (\<lambda>t. decoded K t \<noteq> None) before \<and>
         decoded K tx = None \<and> convert_transaction K slot tx = Inl e))"
proof -
  have "(\<exists>ys. collect (convert_transaction K slot) xs = Inr ys) \<longleftrightarrow> list_all (\<lambda>t. decoded K t \<noteq> None) xs" for xs
    by (simp add: collect_convert)
  moreover have "convert_transaction K slot tx = Inl e \<longleftrightarrow> decoded K tx = None \<and> convert_transaction K slot tx = Inl e" for tx
    using convert_transaction_Inl by blast
  ultimately show ?thesis
    by (simp only: convert_transactions_def option.case collect_convert collect_Inl_split)
qed

text \<open>C8: Every outcome of \<open>get_block\<close>, whatever the endpoints answer and whatever other tasks do to
  the shared index in between: the index stays in range; a panic is the overflow, in a build with
  overflow checks, of the totals of a block an endpoint gave for the slot; an error is one that an
  endpoint answered, as \<open>BlockNotFound\<close> if it says that the block is not available and wrapped else, or
  the \<open>InvalidResponse\<close> of the first undecodable transaction of a block an endpoint gave; and a block
  is made, field by field, of a block and a time that endpoints gave for the slot: its hashes and
  parent, the payee and amount of the first fee reward, the totals, and every transaction in order.\<close>

theorem get_block_outcomes:
  assumes "sys_ok (sc_client sc) s" and "api_ok api (sc_client sc)"
  shows "\<exists>r s'. get_block p K api sc slot s = (r, s') \<and> sys_ok (sc_client sc) s' \<and>
    (case r of
       Inl e \<Rightarrow> e = ArithmeticOverflow \<and> p = Debug \<and> (\<exists>b. gave_block api sc slot b \<and> totals_overflow b)
     | Inr (Inl err) \<Rightarrow>
         (\<exists>e. answered_error api sc slot e \<and>
            err = (if \<exists>msg. error_kind e = ForUser msg \<and> str_contains msg ''Block not available''
                   then BlockNotFound slot else ClientError e)) \<or>
         (\<exists>b. gave_block api sc slot b \<and> undecodable K slot b err)
     | Inr (Inr blk) \<Rightarrow>
         (\<exists>b ts. gave_block api sc slot b \<and> gave_time api sc slot ts \<and> block_made_of K slot b ts blk))"
  by (rule get_block_answer [OF assms])

theorem get_block_outcomes_witness:
  "\<exists>r s'. get_block Debug demo_sdk demo_api demo_client 42 (demo_sys 0 ()) = (r, s') \<and>
     sys_ok demo_multi_client s'"
  using get_block_outcomes [where sc = demo_client and s = "demo_sys 0 ()" and api = demo_api
      and p = Debug and K = demo_sdk and slot = 42] by auto

text \<open>\<open>get_blocks\<close> without an end asks for the slots up to 1000 after its start; that sum is the one
  thing it can panic on, and only in a build with overflow checks.\<close>

lemma get_blocks_default_end:
  "get_blocks p api sc start_slot None s =
     (if p = Debug \<and> 2 ^ 64 \<le> unat start_slot + 1000 then (Inl ArithmeticOverflow, s)
      else get_blocks p api sc start_slot (Some (start_slot + 1000)) s)"
  by (simp add: get_blocks_def add_u64_def)

end
