(* ===== verification/Instruction_Parser.thy ===== *)
theory Instruction_Parser
  imports Demo_Sdk
begin

section \<open>The instruction parser\<close>

text \<open>
  \<open>service/parser.rs\<close>: the functions of \<open>InstructionParser\<close> that look at one instruction, and
  \<open>categorize_transaction\<close>. Programs are recognised by the printed key, so every function takes
  the SDK record; a Rust \<open>match\<close> on a string is a chain of conditionals in the same order.
\<close>

subsection \<open>Parsing one instruction\<close>

definition is_dex_program :: "sdk \<Rightarrow> pubkey \<Rightarrow> bool" where
  "is_dex_program K program_id =
     (let s = pubkey_to_string K program_id in
      s = SERUM_DEX \<or> s = RAYDIUM_POOL \<or> s = RAYDIUM_ROUTER \<or> s = RAYDIUM_CLMM \<or>
      s = JUPITER_V4 \<or> s = JUPITER_V6)"

definition parse_system_instruction :: "sdk \<Rightarrow> compiled_instruction \<Rightarrow> string \<times> hash_map" where
  "parse_system_instruction K ix =
     (case decode_system K (ix_data ix) of
        Some (SysCreateAccount lamps space owner) \<Rightarrow>
          (''CreateAccount'',
           hm_insert ''owner'' (pubkey_to_string K owner)
             (hm_insert ''space'' (u64_to_string space)
               (hm_insert ''lamports'' (u64_to_string lamps) [])))
      | Some (SysTransfer lamps) \<Rightarrow>
          (''Transfer'', hm_insert ''lamports'' (u64_to_string lamps) [])
      | Some SysOther \<Rightarrow> (''Unknown'', [])
      | None \<Rightarrow> (''Invalid'', []))"

definition parse_token_instruction :: "sdk \<Rightarrow> compiled_instruction \<Rightarrow> string \<times> hash_map" where
  "parse_token_instruction K ix =
     (case unpack_token K (ix_data ix) of
        Some (TokTransfer a) \<Rightarrow> (''Transfer'', hm_insert ''amount'' (u64_to_string a) [])
      | Some (TokMintTo a) \<Rightarrow> (''MintTo'', hm_insert ''amount'' (u64_to_string a) [])
      | Some (TokBurn a) \<Rightarrow> (''Burn'', hm_insert ''amount'' (u64_to_string a) [])
      | Some _ \<Rightarrow> (''Unknown'', [])
      | None \<Rightarrow> (''Invalid'', []))"

definition program_of :: "sdk \<Rightarrow> message \<Rightarrow> compiled_instruction \<Rightarrow> string outcome" where
  "program_of K m ix =
     and_then (vec_index (account_keys m) (unat (program_id_index ix)))
       (\<lambda>k. Inr (pubkey_to_string K k))"

definition parse_instruction ::
    "sdk \<Rightarrow> compiled_instruction \<Rightarrow> message \<Rightarrow> (string \<times> hash_map) outcome" where
  "parse_instruction K ix m =
     and_then (program_of K m ix) (\<lambda>program_id.
       if program_id = SYSTEM_PROGRAM then Inr (parse_system_instruction K ix)
       else if program_id = TOKEN_PROGRAM then Inr (parse_token_instruction K ix)
       else Inr (''Unknown'', []))"

definition categorize_dex_instruction :: "sdk \<Rightarrow> pubkey \<Rightarrow> u8 list \<Rightarrow> dex_program_type" where
  "categorize_dex_instruction K program_id data =
     (let s = pubkey_to_string K program_id in
      if s = SERUM_DEX then
        (case data of
           b # _ \<Rightarrow> if b = 0 then SerumNewOrder
                   else if b = 1 then SerumMatchOrder
                   else if b = 2 then SerumCancelOrder
                   else DexOther
         | [] \<Rightarrow> DexOther)
      else if s = RAYDIUM_POOL \<or> s = RAYDIUM_ROUTER \<or> s = RAYDIUM_CLMM then
        (case data of
           b # _ \<Rightarrow> if b = 1 then RaydiumSwap
                   else if b = 2 then RaydiumAddLiquidity
                   else if b = 3 then RaydiumRemoveLiquidity
                   else DexOther
         | [] \<Rightarrow> DexOther)
      else if s = JUPITER_V4 \<or> s = JUPITER_V6 then JupiterSwap
      else DexOther)"

subsection \<open>Categorising a transaction\<close>

text \<open>
  The six flags of \<open>categorize_transaction\<close>, the body of its loop, the loop, and the cascade
  that decides. Reading a program id out of range panics and ends the loop.
\<close>

record category_flags =
  has_system_transfer :: bool
  has_token_transfer :: bool
  has_nft_operation :: bool
  has_serum_dex :: bool
  has_raydium :: bool
  has_jupiter :: bool

definition no_flags :: category_flags where
  "no_flags = \<lparr>has_system_transfer = False, has_token_transfer = False, has_nft_operation = False,
     has_serum_dex = False, has_raydium = False, has_jupiter = False\<rparr>"

definition scan_instruction ::
    "sdk \<Rightarrow> message \<Rightarrow> compiled_instruction \<Rightarrow> category_flags \<Rightarrow> category_flags outcome" where
  "scan_instruction K m ix fl =
     and_then (program_of K m ix) (\<lambda>program_id. Inr (
       if program_id = SYSTEM_PROGRAM then
         (case decode_system K (ix_data ix) of
            Some (SysTransfer _) \<Rightarrow> fl\<lparr>has_system_transfer := True\<rparr>
          | _ \<Rightarrow> fl)
       else if program_id = TOKEN_PROGRAM then
         (case unpack_token K (ix_data ix) of
            Some (TokTransfer _) \<Rightarrow> fl\<lparr>has_token_transfer := True\<rparr>
          | _ \<Rightarrow> fl)
       else if program_id = SERUM_DEX then fl\<lparr>has_serum_dex := True\<rparr>
       else if program_id = RAYDIUM_POOL \<or> program_id = RAYDIUM_ROUTER \<or> program_id = RAYDIUM_CLMM
       then fl\<lparr>has_raydium := True\<rparr>
       else if program_id = JUPITER_V4 \<or> program_id = JUPITER_V6 then fl\<lparr>has_jupiter := True\<rparr>
       else if program_id = METAPLEX_METADATA then fl\<lparr>has_nft_operation := True\<rparr>
       else fl))"

fun scan_instructions ::
    "sdk \<Rightarrow> message \<Rightarrow> compiled_instruction list \<Rightarrow> category_flags \<Rightarrow> category_flags outcome" where
  "scan_instructions K m [] fl = Inr fl"
| "scan_instructions K m (ix # ixs) fl =
     and_then (scan_instruction K m ix fl) (\<lambda>fl'. scan_instructions K m ixs fl')"

definition decide_category :: "category_flags \<Rightarrow> transaction_category" where
  "decide_category fl =
     (if has_jupiter fl then DexProgram JupiterSwap
      else if has_raydium fl then DexProgram RaydiumSwap
      else if has_serum_dex fl then DexProgram SerumNewOrder
      else (case (has_system_transfer fl, has_token_transfer fl, has_nft_operation fl) of
          (True, _, _) \<Rightarrow> SystemProgram SpTransfer
        | (_, True, _) \<Rightarrow> TokenProgram TpTransfer
        | (_, _, True) \<Rightarrow> NFTProgram NftOther
        | _ \<Rightarrow> UnknownCategory))"

definition categorize_transaction ::
    "sdk \<Rightarrow> message \<Rightarrow> compiled_instruction list \<Rightarrow> transaction_category outcome" where
  "categorize_transaction K m ixs =
     and_then (scan_instructions K m ixs no_flags) (\<lambda>fl. Inr (decide_category fl))"

subsection \<open>Specification: the strongest signal decides\<close>

text \<open>
  What each instruction contributes is a \<open>signal\<close>; signals are linearly ordered by the
  priority the cascade gives them, and the category of a transaction is that of its strongest
  signal. The specification has no loop and no flags.
\<close>

datatype signal =
    NoSignal | NftSignal | TokenSignal | SystemSignal | SerumSignal | RaydiumSignal | JupiterSignal

primrec priority :: "signal \<Rightarrow> nat" where
  "priority NoSignal = 0"
| "priority NftSignal = 1"
| "priority TokenSignal = 2"
| "priority SystemSignal = 3"
| "priority SerumSignal = 4"
| "priority RaydiumSignal = 5"
| "priority JupiterSignal = 6"

lemma priority_inj [simp]: "priority a = priority b \<longleftrightarrow> a = b"
  by (cases a; cases b) simp_all

instantiation signal :: linorder
begin

definition less_eq_signal :: "signal \<Rightarrow> signal \<Rightarrow> bool" where
  "less_eq_signal a b \<longleftrightarrow> priority a \<le> priority b"

definition less_signal :: "signal \<Rightarrow> signal \<Rightarrow> bool" where
  "less_signal a b \<longleftrightarrow> priority a < priority b"

instance
  by standard (auto simp: less_eq_signal_def less_signal_def)

end

definition signal_of :: "sdk \<Rightarrow> string \<Rightarrow> u8 list \<Rightarrow> signal" where
  "signal_of K s data =
     (if s = SYSTEM_PROGRAM then
        (case decode_system K data of Some (SysTransfer _) \<Rightarrow> SystemSignal | _ \<Rightarrow> NoSignal)
      else if s = TOKEN_PROGRAM then
        (case unpack_token K data of Some (TokTransfer _) \<Rightarrow> TokenSignal | _ \<Rightarrow> NoSignal)
      else if s = SERUM_DEX then SerumSignal
      else if s \<in> {RAYDIUM_POOL, RAYDIUM_ROUTER, RAYDIUM_CLMM} then RaydiumSignal
      else if s \<in> {JUPITER_V4, JUPITER_V6} then JupiterSignal
      else if s = METAPLEX_METADATA then NftSignal
      else NoSignal)"

definition program_key_ok :: "message \<Rightarrow> compiled_instruction \<Rightarrow> bool" where
  "program_key_ok m ix \<longleftrightarrow> unat (program_id_index ix) < length (account_keys m)"

definition program_text :: "sdk \<Rightarrow> message \<Rightarrow> compiled_instruction \<Rightarrow> string" where
  "program_text K m ix = pubkey_to_string K (account_keys m ! unat (program_id_index ix))"

definition instruction_signal :: "sdk \<Rightarrow> message \<Rightarrow> compiled_instruction \<Rightarrow> signal" where
  "instruction_signal K m ix = signal_of K (program_text K m ix) (ix_data ix)"

primrec category_of :: "signal \<Rightarrow> transaction_category" where
  "category_of NoSignal = UnknownCategory"
| "category_of NftSignal = NFTProgram NftOther"
| "category_of TokenSignal = TokenProgram TpTransfer"
| "category_of SystemSignal = SystemProgram SpTransfer"
| "category_of SerumSignal = DexProgram SerumNewOrder"
| "category_of RaydiumSignal = DexProgram RaydiumSwap"
| "category_of JupiterSignal = DexProgram JupiterSwap"

definition strongest :: "signal list \<Rightarrow> signal" where
  "strongest sigs = fold max sigs NoSignal"

lemma strongest_Max: "strongest sigs = Max (insert NoSignal (set sigs))"
  by (simp add: strongest_def flip: Max.set_eq_fold)

lemma strongest_mset: "mset sigs = mset sigs' \<Longrightarrow> strongest sigs = strongest sigs'"
  by (metis strongest_Max set_mset_mset)

lemma program_of_ok [simp]: "program_key_ok m ix \<Longrightarrow> program_of K m ix = Inr (program_text K m ix)"
  by (simp add: program_of_def program_key_ok_def program_text_def)

lemma program_of_bad [simp]: "\<not> program_key_ok m ix \<Longrightarrow> program_of K m ix = Inl IndexOutOfBounds"
  by (simp add: program_of_def program_key_ok_def)

text \<open>The flags hold the signals seen: raising one more takes the maximum.\<close>

primrec raise_flag :: "signal \<Rightarrow> category_flags \<Rightarrow> category_flags" where
  "raise_flag NoSignal fl = fl"
| "raise_flag NftSignal fl = fl\<lparr>has_nft_operation := True\<rparr>"
| "raise_flag TokenSignal fl = fl\<lparr>has_token_transfer := True\<rparr>"
| "raise_flag SystemSignal fl = fl\<lparr>has_system_transfer := True\<rparr>"
| "raise_flag SerumSignal fl = fl\<lparr>has_serum_dex := True\<rparr>"
| "raise_flag RaydiumSignal fl = fl\<lparr>has_raydium := True\<rparr>"
| "raise_flag JupiterSignal fl = fl\<lparr>has_jupiter := True\<rparr>"

definition top_flag :: "category_flags \<Rightarrow> signal" where
  "top_flag fl =
     (if has_jupiter fl then JupiterSignal else if has_raydium fl then RaydiumSignal
      else if has_serum_dex fl then SerumSignal else if has_system_transfer fl then SystemSignal
      else if has_token_transfer fl then TokenSignal else if has_nft_operation fl then NftSignal
      else NoSignal)"

lemma top_flag_raise: "top_flag (raise_flag s fl) = max s (top_flag fl)"
  by (cases s) (simp_all add: top_flag_def max_def less_eq_signal_def)

lemma top_flag_raise_all: "top_flag (fold raise_flag sigs fl) = fold max sigs (top_flag fl)"
  by (induction sigs arbitrary: fl) (simp_all add: top_flag_raise)

lemma decide_category_top: "decide_category fl = category_of (top_flag fl)"
  by (simp add: decide_category_def top_flag_def)

lemma scan_instruction_ok:
  "program_key_ok m ix \<Longrightarrow>
   scan_instruction K m ix fl = Inr (raise_flag (instruction_signal K m ix) fl)"
  by (simp add: scan_instruction_def instruction_signal_def signal_of_def
      split: option.split system_instruction.split token_instruction.split)

lemma scan_instructions_eq:
  "scan_instructions K m ixs fl =
     (if list_all (program_key_ok m) ixs
      then Inr (fold raise_flag (map (instruction_signal K m) ixs) fl) else Inl IndexOutOfBounds)"
proof (induction ixs arbitrary: fl)
  case Nil
  then show ?case by simp
next
  case (Cons ix ixs)
  then show ?case
    by (cases "program_key_ok m ix") (simp_all add: scan_instruction_ok, simp add: scan_instruction_def)
qed

lemma categorize_eq:
  "categorize_transaction K m ixs =
     (if list_all (program_key_ok m) ixs
      then Inr (category_of (strongest (map (instruction_signal K m) ixs)))
      else Inl IndexOutOfBounds)"
  by (simp add: categorize_transaction_def scan_instructions_eq decide_category_top
      top_flag_raise_all strongest_def)
     (simp add: top_flag_def no_flags_def)

subsection \<open>What parsing an instruction returns\<close>

definition parsed_instruction :: "sdk \<Rightarrow> message \<Rightarrow> compiled_instruction \<Rightarrow> string \<times> hash_map" where
  "parsed_instruction K m ix =
     (if program_text K m ix = SYSTEM_PROGRAM then parse_system_instruction K ix
      else if program_text K m ix = TOKEN_PROGRAM then parse_token_instruction K ix
      else (''Unknown'', []))"

lemma parse_instruction_eq:
  "parse_instruction K ix m =
     (if program_key_ok m ix then Inr (parsed_instruction K m ix) else Inl IndexOutOfBounds)"
  by (simp add: parse_instruction_def parsed_instruction_def)

lemma parsed_instruction_ok: "hm_ok (snd (parsed_instruction K m ix))"
  by (auto simp: parsed_instruction_def parse_system_instruction_def parse_token_instruction_def
      hm.ok_empty hm.ok_insert split: option.splits system_instruction.splits token_instruction.splits)

subsection \<open>The two recognisers of DEX programs\<close>

lemma signal_of_system: "signal_of K SYSTEM_PROGRAM data \<in> {NoSignal, SystemSignal}"
  by (simp add: signal_of_def split: option.split system_instruction.split)

lemma signal_of_token: "signal_of K TOKEN_PROGRAM data \<in> {NoSignal, TokenSignal}"
  by (simp add: signal_of_def split: option.split token_instruction.split)

lemma dex_signal:
  "is_dex_program K k =
     (signal_of K (pubkey_to_string K k) data \<in> {SerumSignal, RaydiumSignal, JupiterSignal})"
proof -
  let ?s = "pubkey_to_string K k"
  consider "?s = SYSTEM_PROGRAM" | "?s = TOKEN_PROGRAM" | "?s \<noteq> SYSTEM_PROGRAM" "?s \<noteq> TOKEN_PROGRAM"
    by blast
  then show ?thesis
  proof cases
    case 1
    with signal_of_system [of K data] show ?thesis by (auto simp: is_dex_program_def)
  next
    case 2
    with signal_of_token [of K data] show ?thesis by (auto simp: is_dex_program_def)
  next
    case 3
    then show ?thesis by (simp add: is_dex_program_def signal_of_def)
  qed
qed

lemma dex_other:
  "categorize_dex_instruction K k data =
     (if is_dex_program K k then categorize_dex_instruction K k data else DexOther)"
  by (simp add: is_dex_program_def categorize_dex_instruction_def Let_def)

subsection \<open>Properties\<close>

text \<open>C9: \<open>categorize_transaction\<close> returns the category of the strongest signal among the
  instructions (Jupiter over Raydium over Serum over a system transfer over a token transfer over
  Metaplex, and \<open>Unknown\<close> with none), and panics exactly when some program index is out of range.\<close>

theorem categorize_is_strongest_signal:
  "categorize_transaction K m ixs =
     (if list_all (program_key_ok m) ixs
      then Inr (category_of (Max (insert NoSignal (set (map (instruction_signal K m) ixs)))))
      else Inl IndexOutOfBounds)"
  by (simp add: categorize_eq strongest_Max)

text \<open>The category of a transaction does not depend on the order of its instructions.\<close>

lemma categorize_order_independent:
  assumes "mset ixs = mset ixs'"
  shows "categorize_transaction K m ixs = categorize_transaction K m ixs'"
proof -
  have "set ixs = set ixs'" using assms by (metis set_mset_mset)
  moreover have "strongest (map (instruction_signal K m) ixs) = strongest (map (instruction_signal K m) ixs')"
    using assms by (intro strongest_mset) simp
  ultimately show ?thesis by (simp add: categorize_eq list_all_iff)
qed

lemma categorize_order_independent_witness:
  "categorize_transaction demo_sdk (demo_message []) [demo_ix 2 [] [], demo_ix 1 [] [3, 1]] =
   categorize_transaction demo_sdk (demo_message []) [demo_ix 1 [] [3, 1], demo_ix 2 [] []]"
  by (rule categorize_order_independent) simp

text \<open>The two recognisers of DEX programs agree: \<open>is_dex_program\<close> accepts a key exactly when an
  instruction of that program gives the categorisation a DEX signal, and
  \<open>categorize_dex_instruction\<close> answers \<open>Other\<close> for every other program.\<close>

lemma dex_recognisers_agree:
  "is_dex_program K k =
     (signal_of K (pubkey_to_string K k) data \<in> {SerumSignal, RaydiumSignal, JupiterSignal}) \<and>
   categorize_dex_instruction K k data =
     (if is_dex_program K k then categorize_dex_instruction K k data else DexOther)"
  by (rule conjI [OF dex_signal dex_other])

text \<open>C40: What \<open>parse_instruction\<close> reports of a system instruction: the numbers it prints read back
  as the decoded lamports and space, the owner is the printed key, and nothing else is reported;
  data that does not decode is \<open>Invalid\<close>, other variants are \<open>Unknown\<close>.\<close>

theorem system_instruction_reported:
  assumes "program_key_ok m ix" and "program_text K m ix = SYSTEM_PROGRAM"
  shows "\<exists>ty pd. parse_instruction K ix m = Inr (ty, pd) \<and>
    (case decode_system K (ix_data ix) of
       Some (SysCreateAccount lamps space owner) \<Rightarrow>
         ty = ''CreateAccount'' \<and> dom (map_of pd) = {''lamports'', ''space'', ''owner''} \<and>
         map_option undec (map_of pd ''lamports'') = Some (unat lamps) \<and>
         map_option undec (map_of pd ''space'') = Some (unat space) \<and>
         map_of pd ''owner'' = Some (pubkey_to_string K owner)
     | Some (SysTransfer lamps) \<Rightarrow>
         ty = ''Transfer'' \<and> dom (map_of pd) = {''lamports''} \<and>
         map_option undec (map_of pd ''lamports'') = Some (unat lamps)
     | Some SysOther \<Rightarrow> ty = ''Unknown'' \<and> pd = []
     | None \<Rightarrow> ty = ''Invalid'' \<and> pd = [])"
  using assms
  by (auto simp: parse_instruction_eq parsed_instruction_def parse_system_instruction_def
      hm.lookup_insert u64_to_string_def split: option.split system_instruction.split)

theorem system_instruction_reported_witness:
  "\<exists>ty pd. parse_instruction demo_sdk (demo_ix 0 [] [2, 42]) (demo_message []) = Inr (ty, pd) \<and>
     ty = ''Transfer'' \<and> map_option undec (map_of pd ''lamports'') = Some 42"
  using system_instruction_reported [of "demo_message []" "demo_ix 0 [] [2, 42]" demo_sdk]
  by (auto simp: program_key_ok_def program_text_def)

text \<open>What \<open>parse_instruction\<close> reports of a token instruction: \<open>Transfer\<close>, \<open>MintTo\<close> and \<open>Burn\<close>
  with an amount that reads back as the decoded one; every other variant, \<open>TransferChecked\<close>
  included, is \<open>Unknown\<close>.\<close>

lemma token_instruction_reported:
  assumes "program_key_ok m ix" and "program_text K m ix = TOKEN_PROGRAM"
  shows "\<exists>ty pd. parse_instruction K ix m = Inr (ty, pd) \<and>
    (case unpack_token K (ix_data ix) of
       Some (TokTransfer a) \<Rightarrow> ty = ''Transfer'' \<and> dom (map_of pd) = {''amount''} \<and>
         map_option undec (map_of pd ''amount'') = Some (unat a)
     | Some (TokMintTo a) \<Rightarrow> ty = ''MintTo'' \<and> dom (map_of pd) = {''amount''} \<and>
         map_option undec (map_of pd ''amount'') = Some (unat a)
     | Some (TokBurn a) \<Rightarrow> ty = ''Burn'' \<and> dom (map_of pd) = {''amount''} \<and>
         map_option undec (map_of pd ''amount'') = Some (unat a)
     | Some _ \<Rightarrow> ty = ''Unknown'' \<and> pd = []
     | None \<Rightarrow> ty = ''Invalid'' \<and> pd = [])"
  using assms
  by (auto simp: parse_instruction_eq parsed_instruction_def parse_token_instruction_def
      hm.lookup_insert u64_to_string_def split: option.split token_instruction.split)

lemma token_instruction_reported_witness:
  "\<exists>ty pd. parse_instruction demo_sdk (demo_ix 1 [5] [7, 42]) (demo_message []) = Inr (ty, pd) \<and>
     ty = ''MintTo'' \<and> map_option undec (map_of pd ''amount'') = Some 42"
  using token_instruction_reported [of "demo_message []" "demo_ix 1 [5] [7, 42]" demo_sdk]
  by (auto simp: program_key_ok_def program_text_def)

end
