(* ===== verification/Token_Transfers.thy ===== *)
theory Token_Transfers
  imports Instruction_Parser
begin

section \<open>Extracting token transfers\<close>

text \<open>
  The second half of \<open>service/parser.rs\<close>: \<open>parse_token_transfers\<close> with its helpers
  \<open>is_token_program\<close>, \<open>find_token_mint\<close> and \<open>is_nft_mint\<close>. The result is an optional record
  inside an outcome, since the account indices of an instruction are read without a check.
\<close>

definition is_token_program :: "sdk \<Rightarrow> pubkey \<Rightarrow> bool" where
  "is_token_program K program_id \<longleftrightarrow> program_id = spl_token_id K"

definition find_balance :: "string \<Rightarrow> token_balance list option \<Rightarrow> string option" where
  "find_balance token_account balances =
     (case balances of
        Some bs \<Rightarrow>
          map_option balance_mint
            (List.find (\<lambda>b. u8_to_string (account_index b) = token_account) bs)
      | None \<Rightarrow> None)"

definition find_token_mint ::
    "string \<Rightarrow> token_balance list option \<Rightarrow> token_balance list option \<Rightarrow> string option" where
  "find_token_mint token_account pre post =
     (case find_balance token_account pre of
        Some m \<Rightarrow> Some m
      | None \<Rightarrow> find_balance token_account post)"

definition is_nft_mint :: "string \<Rightarrow> token_balance list option \<Rightarrow> bool" where
  "is_nft_mint m balances =
     (case balances of
        Some bs \<Rightarrow>
          (case List.find (\<lambda>b. balance_mint b = m) bs of
             Some b \<Rightarrow> decimals (balance_amount b) = 0 \<and> amount_text (balance_amount b) = ''1''
           | None \<Rightarrow> False)
      | None \<Rightarrow> False)"

definition parse_token_transfers ::
    "sdk \<Rightarrow> message \<Rightarrow> compiled_instruction \<Rightarrow> pubkey list \<Rightarrow> token_balance list option \<Rightarrow>
     token_balance list option \<Rightarrow> token_transfer_info option outcome" where
  "parse_token_transfers K m ix accounts pre post =
     and_then (vec_index (account_keys m) (unat (program_id_index ix))) (\<lambda>program_id.
       if \<not> is_token_program K program_id then Inr None
       else (case unpack_token K (ix_data ix) of
           Some (TokTransfer a) \<Rightarrow>
             and_then (vec_index (ix_accounts ix) 0) (\<lambda>from_index.
             and_then (vec_index (ix_accounts ix) 1) (\<lambda>to_index.
             and_then (vec_index accounts (unat from_index)) (\<lambda>from_key.
             and_then (vec_index accounts (unat to_index)) (\<lambda>to_key.
               let from_addr = pubkey_to_string K from_key; to_addr = pubkey_to_string K to_key in
               (case find_token_mint from_addr pre post of
                  None \<Rightarrow> Inr None
                | Some mnt \<Rightarrow> Inr (Some
                    \<lparr>from_address = from_addr, to_address = to_addr, amount = a, mint = mnt,
                     info_token_type = (if a = 1 \<and> is_nft_mint mnt pre then NFT else SPL)\<rparr>))))))
         | Some (TokTransferChecked a dcs) \<Rightarrow>
             and_then (vec_index (ix_accounts ix) 0) (\<lambda>from_index.
             and_then (vec_index (ix_accounts ix) 1) (\<lambda>mint_index.
             and_then (vec_index (ix_accounts ix) 2) (\<lambda>to_index.
             and_then (vec_index accounts (unat from_index)) (\<lambda>from_key.
             and_then (vec_index accounts (unat to_index)) (\<lambda>to_key.
             and_then (vec_index accounts (unat mint_index)) (\<lambda>mint_key.
               Inr (Some
                 \<lparr>from_address = pubkey_to_string K from_key, to_address = pubkey_to_string K to_key,
                  amount = a, mint = pubkey_to_string K mint_key,
                  info_token_type = (if a = 1 \<and> dcs = 0 then NFT else SPL)\<rparr>)))))))
         | _ \<Rightarrow> Inr None))"

subsection \<open>When it panics, and what it returns\<close>

text \<open>How many instruction accounts a token instruction makes the parser read.\<close>

fun accounts_read :: "token_instruction option \<Rightarrow> nat" where
  "accounts_read (Some (TokTransfer _)) = 2"
| "accounts_read (Some (TokTransferChecked _ _)) = 3"
| "accounts_read _ = 0"

definition accounts_ok :: "nat \<Rightarrow> compiled_instruction \<Rightarrow> pubkey list \<Rightarrow> bool" where
  "accounts_ok n ix accounts =
     list_all (\<lambda>i. i < length (ix_accounts ix) \<and> unat (ix_accounts ix ! i) < length accounts) [0..<n]"

definition transfer_accounts_ok :: "sdk \<Rightarrow> message \<Rightarrow> compiled_instruction \<Rightarrow> pubkey list \<Rightarrow> bool" where
  "transfer_accounts_ok K m ix accounts \<longleftrightarrow>
     program_key_ok m ix \<and>
     (is_token_program K (account_keys m ! unat (program_id_index ix)) \<longrightarrow>
        accounts_ok (accounts_read (unpack_token K (ix_data ix))) ix accounts)"

definition account_text :: "sdk \<Rightarrow> compiled_instruction \<Rightarrow> pubkey list \<Rightarrow> nat \<Rightarrow> string" where
  "account_text K ix accounts i = pubkey_to_string K (accounts ! unat (ix_accounts ix ! i))"

lemma accounts_ok_numerals [simp]:
  "accounts_ok 0 ix accounts"
  "accounts_ok 2 ix accounts \<longleftrightarrow> 2 \<le> length (ix_accounts ix) \<and>
     unat (ix_accounts ix ! 0) < length accounts \<and> unat (ix_accounts ix ! 1) < length accounts"
  "accounts_ok 3 ix accounts \<longleftrightarrow> 3 \<le> length (ix_accounts ix) \<and>
     unat (ix_accounts ix ! 0) < length accounts \<and> unat (ix_accounts ix ! 1) < length accounts \<and>
     unat (ix_accounts ix ! 2) < length accounts"
  by (auto simp: accounts_ok_def upt_rec numeral_2_eq_2)

lemma parse_not_token:
  assumes "program_key_ok m ix" and "\<not> is_token_program K (account_keys m ! unat (program_id_index ix))"
  shows "parse_token_transfers K m ix accounts pre post = Inr None"
  using assms by (simp add: parse_token_transfers_def program_key_ok_def)

lemma parse_transfer:
  assumes "program_key_ok m ix" and "is_token_program K (account_keys m ! unat (program_id_index ix))"
    and "unpack_token K (ix_data ix) = Some (TokTransfer a)"
  shows "parse_token_transfers K m ix accounts pre post =
     (if accounts_ok 2 ix accounts then Inr (
        map_option (\<lambda>mnt.
          \<lparr>from_address = account_text K ix accounts 0, to_address = account_text K ix accounts 1,
           amount = a, mint = mnt,
           info_token_type = (if a = 1 \<and> is_nft_mint mnt pre then NFT else SPL)\<rparr>)
          (find_token_mint (account_text K ix accounts 0) pre post))
      else Inl IndexOutOfBounds)"
  using assms
  by (auto simp: parse_token_transfers_def program_key_ok_def account_text_def vec_index_def Let_def
      split: option.splits)

lemma parse_transfer_checked:
  assumes "program_key_ok m ix" and "is_token_program K (account_keys m ! unat (program_id_index ix))"
    and "unpack_token K (ix_data ix) = Some (TokTransferChecked a d)"
  shows "parse_token_transfers K m ix accounts pre post =
     (if accounts_ok 3 ix accounts then Inr (Some
          \<lparr>from_address = account_text K ix accounts 0, to_address = account_text K ix accounts 2,
           amount = a, mint = account_text K ix accounts 1,
           info_token_type = (if a = 1 \<and> d = 0 then NFT else SPL)\<rparr>)
      else Inl IndexOutOfBounds)"
  using assms
  by (auto simp: parse_token_transfers_def program_key_ok_def account_text_def vec_index_def)

lemma parse_other:
  assumes "program_key_ok m ix" and "accounts_read (unpack_token K (ix_data ix)) = 0"
  shows "parse_token_transfers K m ix accounts pre post = Inr None"
  using assms
  by (auto simp: parse_token_transfers_def program_key_ok_def
      split: option.splits token_instruction.splits)

lemma parse_panic_iff:
  "parse_token_transfers K m ix accounts pre post = Inl e \<longleftrightarrow>
     e = IndexOutOfBounds \<and> \<not> transfer_accounts_ok K m ix accounts"
proof (cases "program_key_ok m ix \<and> is_token_program K (account_keys m ! unat (program_id_index ix))")
  case True
  then show ?thesis
    by (cases "unpack_token K (ix_data ix)" rule: accounts_read.cases)
       (auto simp: transfer_accounts_ok_def parse_transfer parse_transfer_checked parse_other
         simp del: accounts_ok_numerals(2,3))
next
  case False
  then show ?thesis
    by (cases "program_key_ok m ix")
       (auto simp: transfer_accounts_ok_def parse_not_token, auto simp: parse_token_transfers_def program_key_ok_def)
qed

lemma find_balance_long: "3 < length s \<Longrightarrow> find_balance s bs = None"
proof -
  assume "3 < length s"
  then have "u8_to_string w \<noteq> s" for w using length_u8_to_string [of w] by auto
  then show ?thesis by (simp add: find_balance_def find_None_iff split: option.split)
qed

lemma find_token_mint_long: "3 < length s \<Longrightarrow> find_token_mint s pre post = None"
  by (simp add: find_token_mint_def find_balance_long)

lemma parse_Some_cases:
  assumes "parse_token_transfers K m ix accounts pre post = Inr (Some info)"
  shows "program_key_ok m ix \<and> is_token_program K (account_keys m ! unat (program_id_index ix)) \<and>
    (\<exists>a. unpack_token K (ix_data ix) = Some (TokTransfer a) \<and>
        find_token_mint (account_text K ix accounts 0) pre post = Some (mint info) \<or>
     (\<exists>d. unpack_token K (ix_data ix) = Some (TokTransferChecked a d)))"
proof -
  have ok: "program_key_ok m ix"
    using assms parse_panic_iff by (auto simp: parse_token_transfers_def program_key_ok_def outcome_iff)
  moreover from ok assms have "is_token_program K (account_keys m ! unat (program_id_index ix))"
    using parse_not_token by fastforce
  ultimately show ?thesis using assms
    by (cases "unpack_token K (ix_data ix)" rule: accounts_read.cases)
       (auto simp: parse_transfer parse_other split: if_splits)
qed

subsection \<open>Properties\<close>

text \<open>\<open>parse_token_transfers\<close> panics exactly when the program index is out of range, or a
  \<open>Transfer\<close> (\<open>TransferChecked\<close>) of the token program has fewer than two (three) accounts or an
  account index out of range: nothing checks them first.\<close>

lemma token_transfer_panics_iff:
  "parse_token_transfers K m ix accounts pre post = Inl e \<longleftrightarrow>
     e = IndexOutOfBounds \<and> \<not> transfer_accounts_ok K m ix accounts"
  by (rule parse_panic_iff)

text \<open>C35: A plain \<open>Transfer\<close> is never reported. The mint is searched by comparing the printed key of
  the source account with the printed account index of a balance, a number below 256, and no
  printed key is that short; so no balance ever matches and the transfer is dropped.\<close>

theorem plain_transfer_never_reported:
  assumes "keys_print_long K" and "unpack_token K (ix_data ix) = Some (TokTransfer a)"
  shows "parse_token_transfers K m ix accounts pre post \<noteq> Inr (Some info)"
proof
  assume "parse_token_transfers K m ix accounts pre post = Inr (Some info)"
  then have "find_token_mint (account_text K ix accounts 0) pre post = Some (mint info)"
    using parse_Some_cases assms(2) by fastforce
  moreover have "3 < length (account_text K ix accounts 0)"
    using assms(1) by (simp add: keys_print_long_def account_text_def less_le_trans [of 3 32])
  ultimately show False by (simp add: find_token_mint_long)
qed

theorem plain_transfer_never_reported_witness:
  "\<forall>info. parse_token_transfers demo_sdk (demo_message []) (demo_ix 1 [5, 6] [3, 1])
     (account_keys (demo_message [])) (Some []) (Some []) \<noteq> Inr (Some info)"
proof
  fix info
  show "parse_token_transfers demo_sdk (demo_message []) (demo_ix 1 [5, 6] [3, 1])
      (account_keys (demo_message [])) (Some []) (Some []) \<noteq> Inr (Some info)"
    by (rule plain_transfer_never_reported [OF demo_keys_long, of "demo_ix 1 [5, 6] [3, 1]" 1]) simp
qed

text \<open>A \<open>TransferChecked\<close> of the token program with its three accounts in range is always
  reported, with source, mint and destination read from the accounts 0, 1 and 2, and as an NFT
  exactly when one unit of a token without decimals moves.\<close>

lemma checked_transfer_reported:
  assumes "program_key_ok m ix" and "is_token_program K (account_keys m ! unat (program_id_index ix))"
    and "unpack_token K (ix_data ix) = Some (TokTransferChecked a d)" and "accounts_ok 3 ix accounts"
  shows "parse_token_transfers K m ix accounts pre post = Inr (Some
     \<lparr>from_address = account_text K ix accounts 0, to_address = account_text K ix accounts 2,
      amount = a, mint = account_text K ix accounts 1,
      info_token_type = (if a = 1 \<and> d = 0 then NFT else SPL)\<rparr>)"
  using parse_transfer_checked [OF assms(1-3)] assms(4) by simp

lemma checked_transfer_reported_witness:
  "parse_token_transfers demo_sdk (demo_message []) (demo_ix 1 [5, 6, 7] [12, 1, 0])
     (account_keys (demo_message [])) None None = Inr (Some
     \<lparr>from_address = demo_key_text (Pubkey [5]), to_address = demo_key_text (Pubkey [7]),
      amount = 1, mint = demo_key_text (Pubkey [6]), info_token_type = NFT\<rparr>)"
  by (subst checked_transfer_reported [where a = 1 and d = 0])
     (simp_all add: program_key_ok_def is_token_program_def account_text_def)

end
