(* ===== verification/Proto_Messages.thy ===== *)
theory Proto_Messages
  imports Prelude
begin

section \<open>The messages of the gRPC service\<close>

text \<open>
  The message structs of \<open>proto/solana.rs\<close> (what \<open>prost\<close> generates from
  \<open>proto/solana/*.proto\<close>) and the status codes the handlers and the
  generated client and server use.
\<close>

record pb_block =
  pb_slot :: i64
  pb_blockhash :: string
  pb_parent_slot :: i64
  pb_timestamp :: i64
  pb_previous_blockhash :: string
  pb_leader :: string
  pb_leader_reward :: i64
  pb_total_compute_units :: i64
  pb_total_fee :: string

record pb_transaction =
  ptx_signature :: string
  ptx_success :: bool
  ptx_fee :: string
  ptx_compute_units_consumed :: i64
  ptx_transaction_category :: string
  ptx_program_count :: i32
  ptx_write_account_count :: i32
  ptx_read_account_count :: i32

record pb_instruction_account =
  pia_address :: string
  pia_is_signer :: bool
  pia_is_writable :: bool
  pia_order_index :: i32

record pb_instruction =
  pix_program_id :: string
  pix_data :: "u8 list"
  pix_order_index :: i32
  pix_instruction_type :: string
  pix_parsed_data :: hash_map
  pix_accounts :: "pb_instruction_account list"

record pb_token_transfer =
  ptt_from_address :: string
  ptt_to_address :: string
  ptt_amount :: string
  ptt_token_type :: string
  ptt_token_mint :: string
  ptt_transaction_signature :: string

record block_data =
  bd_block :: "pb_block option"
  bd_transactions :: "pb_transaction list"
  bd_instructions :: "pb_instruction list"
  bd_token_transfers :: "pb_token_transfer list"

record get_block_request =
  gb_slot :: i64

record get_block_response =
  gb_block_data :: "block_data option"

record subscribe_new_blocks_request =
  sn_start_slot :: i64

record get_block_range_request =
  gr_start_slot :: i64
  gr_end_slot :: i64

subsection \<open>Statuses\<close>

datatype status_code = NotFound | ResourceExhausted | Internal | InvalidArgument | UnknownCode | Unimplemented

datatype status = Status (code: status_code) (status_message: string)

end
