(* ===== verification/Block_Conversion.thy ===== *)
theory Block_Conversion
  imports Rpc_Client Token_Transfers Proto_Messages
begin

section \<open>From RPC blocks to protobuf messages\<close>

text \<open>
  \<open>convert_error\<close> and \<open>convert_block_data\<close> of \<open>service/mod.rs\<close>. The conversion walks the
  transactions of a block and pushes onto three vectors; any unchecked index ends it with a panic.
\<close>

fun convert_error :: "rpc_error \<Rightarrow> status" where
  "convert_error (BlockNotFound slot) =
     Status NotFound (''Block not found at slot '' @ u64_to_string slot)"
| "convert_error RateLimitExceeded = Status ResourceExhausted ''Rate limit exceeded''"
| "convert_error (InvalidResponse msg) = Status Internal msg"
| "convert_error _ = Status Internal ''Internal RPC error''"

definition convert_header :: "block \<Rightarrow> pb_block" where
  "convert_header b =
     \<lparr>pb_slot = as_i64 (blk_slot b), pb_blockhash = blk_blockhash b,
      pb_parent_slot = as_i64 (blk_parent_slot b), pb_timestamp = blk_timestamp b,
      pb_previous_blockhash = blk_previous_blockhash b, pb_leader = blk_leader b,
      pb_leader_reward = (case blk_leader_reward b of Some r \<Rightarrow> as_i64 r | None \<Rightarrow> 0),
      pb_total_compute_units = as_i64 (blk_total_compute_units b),
      pb_total_fee = u64_to_string (blk_total_fee b)\<rparr>"

fun category_text :: "transaction_category \<Rightarrow> string" where
  "category_text (SystemProgram t) = ''System_'' @ debug_system t"
| "category_text (TokenProgram t) = ''Token_'' @ debug_token t"
| "category_text (DexProgram t) = ''Dex_'' @ debug_dex t"
| "category_text (NFTProgram t) = ''NFT_'' @ debug_nft t"
| "category_text UnknownCategory = ''Unknown''"

subsection \<open>Counting accounts\<close>

definition writable_accounts :: "sdk \<Rightarrow> message \<Rightarrow> nat" where
  "writable_accounts K m =
     length (filter (\<lambda>(idx, _). is_maybe_writable K m idx) (List.enumerate 0 (account_keys m)))"

definition readonly_accounts :: "sdk \<Rightarrow> message \<Rightarrow> nat" where
  "readonly_accounts K m =
     length (filter (\<lambda>(idx, _). \<not> is_maybe_writable K m idx) (List.enumerate 0 (account_keys m)))"

definition write_account_count :: "sdk \<Rightarrow> enriched_transaction \<Rightarrow> i32" where
  "write_account_count K tx =
     (case et_meta tx of
        Some m \<Rightarrow>
          (let created = length (post_balances m) - length (pre_balances m);
               tokens = (case post_token_balances m of OptSome bs \<Rightarrow> length bs | _ \<Rightarrow> 0)
           in usize_as_i32 (writable_accounts K (tx_message (et_transaction tx)) + created + tokens))
      | None \<Rightarrow> 0)"

definition convert_transaction_row :: "sdk \<Rightarrow> enriched_transaction \<Rightarrow> transaction_category \<Rightarrow> pb_transaction" where
  "convert_transaction_row K tx category =
     (let m = tx_message (et_transaction tx) in
      \<lparr>ptx_signature = et_signature tx, ptx_success = (et_error tx = None),
       ptx_fee = (case et_meta tx of Some mt \<Rightarrow> u64_to_string (meta_fee mt) | None \<Rightarrow> ''0''),
       ptx_compute_units_consumed = as_i64
         (case Option.bind (et_meta tx) (\<lambda>mt. serializer_option (compute_units_consumed mt)) of
            Some u \<Rightarrow> u | None \<Rightarrow> 0),
       ptx_transaction_category = category_text category,
       ptx_program_count = usize_as_i32 (length (instructions m)),
       ptx_write_account_count = write_account_count K tx,
       ptx_read_account_count = usize_as_i32 (readonly_accounts K m)\<rparr>)"

subsection \<open>Instructions\<close>

definition convert_account :: "sdk \<Rightarrow> message \<Rightarrow> nat \<times> u8 \<Rightarrow> pb_instruction_account outcome" where
  "convert_account K m = (\<lambda>(acc_idx, account_idx).
     and_then (vec_index (account_keys m) (unat account_idx)) (\<lambda>account_key.
       Inr \<lparr>pia_address = pubkey_to_string K account_key,
            pia_is_signer = is_signer K m (unat account_idx),
            pia_is_writable = is_maybe_writable K m (unat account_idx),
            pia_order_index = usize_as_i32 acc_idx\<rparr>))"

definition convert_instruction ::
    "sdk \<Rightarrow> message \<Rightarrow> nat \<times> compiled_instruction \<Rightarrow> pb_instruction outcome" where
  "convert_instruction K m = (\<lambda>(idx, ix).
     and_then (program_of K m ix) (\<lambda>program_id.
     and_then (collect (convert_account K m) (List.enumerate 0 (ix_accounts ix))) (\<lambda>accs.
     and_then (parse_instruction K ix m) (\<lambda>(ty, parsed).
       Inr \<lparr>pix_program_id = program_id, pix_data = ix_data ix, pix_order_index = usize_as_i32 idx,
            pix_instruction_type = ty,
            pix_parsed_data = fold (\<lambda>(k, v) pb. hm_insert k v pb) parsed [],
            pix_accounts = accs\<rparr>))))"

subsection \<open>Token transfers\<close>

definition balances_of ::
    "(status_meta \<Rightarrow> token_balance list option_serializer) \<Rightarrow> enriched_transaction \<Rightarrow>
     token_balance list option" where
  "balances_of field tx =
     map_option (\<lambda>m. case field m of OptSome v \<Rightarrow> v | OptNone \<Rightarrow> [] | OptSkip \<Rightarrow> []) (et_meta tx)"

fun token_type_text :: "token_type \<Rightarrow> string" where
  "token_type_text SPL = ''SPL''"
| "token_type_text NFT = ''NFT''"

definition convert_transfer :: "enriched_transaction \<Rightarrow> token_transfer_info \<Rightarrow> pb_token_transfer" where
  "convert_transfer tx info =
     \<lparr>ptt_from_address = from_address info, ptt_to_address = to_address info,
      ptt_amount = u64_to_string (amount info),
      ptt_token_type = token_type_text (info_token_type info),
      ptt_token_mint = mint info, ptt_transaction_signature = et_signature tx\<rparr>"

definition parse_transfer_of ::
    "sdk \<Rightarrow> enriched_transaction \<Rightarrow> compiled_instruction \<Rightarrow> token_transfer_info option outcome" where
  "parse_transfer_of K tx ix =
     (let m = tx_message (et_transaction tx) in
      parse_token_transfers K m ix (account_keys m)
        (balances_of pre_token_balances tx) (balances_of post_token_balances tx))"

fun transfer_rows ::
    "sdk \<Rightarrow> enriched_transaction \<Rightarrow> compiled_instruction list \<Rightarrow> pb_token_transfer list outcome" where
  "transfer_rows K tx [] = Inr []"
| "transfer_rows K tx (ix # ixs) =
     and_then (parse_transfer_of K tx ix) (\<lambda>r.
     and_then (transfer_rows K tx ixs) (\<lambda>rows.
       Inr (case r of Some info \<Rightarrow> convert_transfer tx info # rows | None \<Rightarrow> rows)))"

subsection \<open>The whole block\<close>

definition convert_one ::
    "sdk \<Rightarrow> enriched_transaction \<Rightarrow>
     (pb_transaction \<times> pb_instruction list \<times> pb_token_transfer list) outcome" where
  "convert_one K tx =
     (let m = tx_message (et_transaction tx) in
      and_then (categorize_transaction K m (instructions m)) (\<lambda>category.
      and_then (collect (convert_instruction K m) (List.enumerate 0 (instructions m))) (\<lambda>ixs.
      and_then (transfer_rows K tx (instructions m)) (\<lambda>transfers.
        Inr (convert_transaction_row K tx category, ixs, transfers)))))"

fun convert_loop ::
    "sdk \<Rightarrow> enriched_transaction list \<Rightarrow>
     pb_transaction list \<times> pb_instruction list \<times> pb_token_transfer list \<Rightarrow>
     (pb_transaction list \<times> pb_instruction list \<times> pb_token_transfer list) outcome" where
  "convert_loop K [] acc = Inr acc"
| "convert_loop K (tx # txs) (ptxs, pixs, ptts) =
     and_then (convert_one K tx) (\<lambda>(row, ixs, transfers).
       convert_loop K txs (ptxs @ [row], pixs @ ixs, ptts @ transfers))"

definition convert_block_data :: "sdk \<Rightarrow> block \<Rightarrow> block_data rpc_result outcome" where
  "convert_block_data K b =
     and_then (convert_loop K (blk_transactions b) ([], [], [])) (\<lambda>(ptxs, pixs, ptts).
       Inr (Inr
         \<lparr>bd_block = Some (convert_header b), bd_transactions = ptxs, bd_instructions = pixs,
          bd_token_transfers = ptts\<rparr>))"

subsection \<open>Specification: a total conversion behind one test\<close>

text \<open>
  When no index of a block is out of range the conversion is a map over its transactions. The
  test and the map, without loops, accumulators or panics:
\<close>

definition instruction_ok :: "sdk \<Rightarrow> message \<Rightarrow> compiled_instruction \<Rightarrow> bool" where
  "instruction_ok K m ix \<longleftrightarrow>
     program_key_ok m ix \<and> list_all (\<lambda>a. unat a < length (account_keys m)) (ix_accounts ix) \<and>
     transfer_accounts_ok K m ix (account_keys m)"

definition transaction_ok :: "sdk \<Rightarrow> enriched_transaction \<Rightarrow> bool" where
  "transaction_ok K tx \<longleftrightarrow>
     list_all (instruction_ok K (tx_message (et_transaction tx)))
       (instructions (tx_message (et_transaction tx)))"

definition account_row :: "sdk \<Rightarrow> message \<Rightarrow> nat \<times> u8 \<Rightarrow> pb_instruction_account" where
  "account_row K m p =
     \<lparr>pia_address = pubkey_to_string K (account_keys m ! unat (snd p)),
      pia_is_signer = is_signer K m (unat (snd p)),
      pia_is_writable = is_maybe_writable K m (unat (snd p)),
      pia_order_index = usize_as_i32 (fst p)\<rparr>"

definition copy_map :: "hash_map \<Rightarrow> hash_map" where
  "copy_map pd = fold (\<lambda>(k, v) pb. hm_insert k v pb) pd []"

definition instruction_row :: "sdk \<Rightarrow> message \<Rightarrow> nat \<times> compiled_instruction \<Rightarrow> pb_instruction" where
  "instruction_row K m p =
     \<lparr>pix_program_id = program_text K m (snd p), pix_data = ix_data (snd p),
      pix_order_index = usize_as_i32 (fst p),
      pix_instruction_type = fst (parsed_instruction K m (snd p)),
      pix_parsed_data = copy_map (snd (parsed_instruction K m (snd p))),
      pix_accounts = map (account_row K m) (List.enumerate 0 (ix_accounts (snd p)))\<rparr>"

definition transfer_found :: "sdk \<Rightarrow> enriched_transaction \<Rightarrow> compiled_instruction \<Rightarrow> token_transfer_info option" where
  "transfer_found K tx ix = (case parse_transfer_of K tx ix of Inr r \<Rightarrow> r | Inl _ \<Rightarrow> None)"

definition transaction_category_of :: "sdk \<Rightarrow> enriched_transaction \<Rightarrow> transaction_category" where
  "transaction_category_of K tx =
     (let m = tx_message (et_transaction tx) in
      category_of (strongest (map (instruction_signal K m) (instructions m))))"

definition transaction_row :: "sdk \<Rightarrow> enriched_transaction \<Rightarrow> pb_transaction" where
  "transaction_row K tx = convert_transaction_row K tx (transaction_category_of K tx)"

definition instruction_rows :: "sdk \<Rightarrow> enriched_transaction \<Rightarrow> pb_instruction list" where
  "instruction_rows K tx =
     (let m = tx_message (et_transaction tx) in
      map (instruction_row K m) (List.enumerate 0 (instructions m)))"

definition transfers_found :: "sdk \<Rightarrow> enriched_transaction \<Rightarrow> pb_token_transfer list" where
  "transfers_found K tx =
     map (convert_transfer tx)
       (List.map_filter (transfer_found K tx) (instructions (tx_message (et_transaction tx))))"

lemma parse_transfer_of_eq:
  "parse_transfer_of K tx ix =
     (if transfer_accounts_ok K (tx_message (et_transaction tx)) ix (account_keys (tx_message (et_transaction tx)))
      then Inr (transfer_found K tx ix) else Inl IndexOutOfBounds)"
proof -
  let ?m = "tx_message (et_transaction tx)"
  have "parse_transfer_of K tx ix = Inl e \<longleftrightarrow>
      e = IndexOutOfBounds \<and> \<not> transfer_accounts_ok K ?m ix (account_keys ?m)" for e
    by (simp add: parse_transfer_of_def parse_panic_iff Let_def)
  then show ?thesis by (cases "parse_transfer_of K tx ix") (auto simp: transfer_found_def)
qed

lemma transfer_rows_eq:
  "transfer_rows K tx ixs =
     (if list_all (\<lambda>ix. transfer_accounts_ok K (tx_message (et_transaction tx)) ix
            (account_keys (tx_message (et_transaction tx)))) ixs
      then Inr (map (convert_transfer tx) (List.map_filter (transfer_found K tx) ixs))
      else Inl IndexOutOfBounds)"
  by (induction ixs) (auto simp: parse_transfer_of_eq map_filter_simps split: option.split)

lemma convert_account_eq:
  "convert_account K m p =
     (if unat (snd p) < length (account_keys m) then Inr (account_row K m p) else Inl IndexOutOfBounds)"
  by (cases p) (simp add: convert_account_def account_row_def)

lemma convert_instruction_eq:
  "convert_instruction K m p =
     (if program_key_ok m (snd p) \<and> list_all (\<lambda>a. unat a < length (account_keys m)) (ix_accounts (snd p))
      then Inr (instruction_row K m p) else Inl IndexOutOfBounds)"
proof -
  have "collect (convert_account K m) (List.enumerate 0 as) =
      (if list_all (\<lambda>a. unat a < length (account_keys m)) as
       then Inr (map (account_row K m) (List.enumerate 0 as)) else Inl IndexOutOfBounds)" for as
    by (rule collect_enumerate) (rule convert_account_eq)
  then show ?thesis
    by (cases p; cases "program_key_ok m (snd p)")
       (auto simp: convert_instruction_def instruction_row_def copy_map_def parse_instruction_eq
         split: prod.split)
qed

lemma convert_one_eq:
  "convert_one K tx =
     (if transaction_ok K tx then Inr (transaction_row K tx, instruction_rows K tx, transfers_found K tx)
      else Inl IndexOutOfBounds)"
proof -
  let ?m = "tx_message (et_transaction tx)"
  have "collect (convert_instruction K ?m) (List.enumerate 0 ixs) =
      (if list_all (\<lambda>ix. program_key_ok ?m ix \<and> list_all (\<lambda>a. unat a < length (account_keys ?m)) (ix_accounts ix)) ixs
       then Inr (map (instruction_row K ?m) (List.enumerate 0 ixs)) else Inl IndexOutOfBounds)" for ixs
    by (rule collect_enumerate) (rule convert_instruction_eq)
  then show ?thesis
    by (auto simp: convert_one_def Let_def categorize_eq transfer_rows_eq transaction_ok_def
        instruction_ok_def transaction_row_def transaction_category_of_def instruction_rows_def
        transfers_found_def list_all_iff)
qed

definition block_data_of :: "sdk \<Rightarrow> block \<Rightarrow> block_data" where
  "block_data_of K b =
     \<lparr>bd_block = Some (convert_header b),
      bd_transactions = map (transaction_row K) (blk_transactions b),
      bd_instructions = concat (map (instruction_rows K) (blk_transactions b)),
      bd_token_transfers = concat (map (transfers_found K) (blk_transactions b))\<rparr>"

lemma convert_loop_eq:
  "convert_loop K txs (ps, is, ts) =
     (if list_all (transaction_ok K) txs
      then Inr (ps @ map (transaction_row K) txs, is @ concat (map (instruction_rows K) txs),
        ts @ concat (map (transfers_found K) txs))
      else Inl IndexOutOfBounds)"
  by (induction txs arbitrary: ps "is" ts) (simp_all add: convert_one_eq)

lemma convert_block_data_eq:
  "convert_block_data K b =
     (if list_all (transaction_ok K) (blk_transactions b) then Inr (Inr (block_data_of K b))
      else Inl IndexOutOfBounds)"
  by (simp add: convert_block_data_def convert_loop_eq block_data_of_def)

subsection \<open>Which transfers a block reports\<close>

definition checked_row :: "sdk \<Rightarrow> enriched_transaction \<Rightarrow> compiled_instruction \<Rightarrow> pb_token_transfer option" where
  "checked_row K tx ix =
     (let m = tx_message (et_transaction tx); keys = account_keys m in
      if is_token_program K (keys ! unat (program_id_index ix))
      then (case unpack_token K (ix_data ix) of
          Some (TokTransferChecked a d) \<Rightarrow> Some
            \<lparr>ptt_from_address = account_text K ix keys 0, ptt_to_address = account_text K ix keys 2,
             ptt_amount = u64_to_string a,
             ptt_token_type = (if a = 1 \<and> d = 0 then ''NFT'' else ''SPL''),
             ptt_token_mint = account_text K ix keys 1, ptt_transaction_signature = et_signature tx\<rparr>
        | _ \<Rightarrow> None)
      else None)"

lemma plain_transfer_dropped:
  assumes "keys_print_long K" and "unpack_token K (ix_data ix) = Some (TokTransfer a)"
  shows "transfer_found K tx ix = None"
proof -
  have "3 < length (account_text K ix accounts i)" for accounts i
    using assms(1) by (simp add: keys_print_long_def account_text_def less_le_trans [of 3 32])
  then have "parse_transfer_of K tx ix \<noteq> Inr (Some info)" for info
    using parse_Some_cases assms(2)
    by (fastforce simp: parse_transfer_of_def Let_def find_token_mint_long)
  then show ?thesis by (cases "transfer_found K tx ix") (auto simp: transfer_found_def split: sum.splits)
qed

lemma transfer_found_row:
  assumes "keys_print_long K"
    and "transfer_accounts_ok K (tx_message (et_transaction tx)) ix (account_keys (tx_message (et_transaction tx)))"
  shows "map_option (convert_transfer tx) (transfer_found K tx ix) = checked_row K tx ix"
proof -
  let ?m = "tx_message (et_transaction tx)"
  have key: "program_key_ok ?m ix" using assms(2) by (simp add: transfer_accounts_ok_def)
  consider "\<not> is_token_program K (account_keys ?m ! unat (program_id_index ix))"
    | a where "unpack_token K (ix_data ix) = Some (TokTransfer a)"
    | a d where "is_token_program K (account_keys ?m ! unat (program_id_index ix))"
        "unpack_token K (ix_data ix) = Some (TokTransferChecked a d)"
    | "accounts_read (unpack_token K (ix_data ix)) = 0"
    by (cases "unpack_token K (ix_data ix)" rule: accounts_read.cases) auto
  then show ?thesis
  proof cases
    case 1
    with key show ?thesis
      by (simp add: transfer_found_def parse_transfer_of_def parse_not_token checked_row_def Let_def)
  next
    case 2
    with plain_transfer_dropped [OF assms(1)] show ?thesis by (simp add: checked_row_def Let_def)
  next
    case 3
    with assms(2) have "accounts_ok 3 ix (account_keys ?m)" by (simp add: transfer_accounts_ok_def)
    with 3 key show ?thesis
      by (simp add: transfer_found_def parse_transfer_of_def parse_transfer_checked checked_row_def
          convert_transfer_def Let_def)
  next
    case 4
    with key show ?thesis
      by (auto simp: transfer_found_def parse_transfer_of_def parse_other checked_row_def Let_def
          split: option.split token_instruction.split)
  qed
qed

text \<open>
  \<open>spl_token::id()\<close> prints as the constant \<open>TOKEN_PROGRAM\<close>, and base58 is injective: the two
  recognisers of the token program, by key and by text, mean the same key.
\<close>

definition token_id_ok :: "sdk \<Rightarrow> bool" where
  "token_id_ok K \<longleftrightarrow> (\<forall>k. pubkey_to_string K k = TOKEN_PROGRAM \<longleftrightarrow> k = spl_token_id K)"

lemma checked_transfer_found:
  assumes "token_id_ok K" and "instruction_ok K (tx_message (et_transaction tx)) ix"
    and "program_text K (tx_message (et_transaction tx)) ix = TOKEN_PROGRAM"
    and "unpack_token K (ix_data ix) = Some (TokTransferChecked a d)"
  shows "transfer_found K tx ix \<noteq> None"
proof -
  let ?m = "tx_message (et_transaction tx)"
  have tok: "is_token_program K (account_keys ?m ! unat (program_id_index ix))"
    using assms(1,3) by (simp add: token_id_ok_def program_text_def is_token_program_def)
  with assms(2,4) have "program_key_ok ?m ix" "accounts_ok 3 ix (account_keys ?m)"
    by (simp_all add: instruction_ok_def transfer_accounts_ok_def)
  with tok assms(4) show ?thesis
    by (simp add: transfer_found_def parse_transfer_of_def parse_transfer_checked Let_def)
qed

lemma map_map_filter: "map f (List.map_filter g xs) = List.map_filter (\<lambda>x. map_option f (g x)) xs"
  by (induction xs) (simp_all add: map_filter_simps split: option.split)

lemma map_filter_cong: "(\<And>x. x \<in> set xs \<Longrightarrow> f x = g x) \<Longrightarrow> List.map_filter f xs = List.map_filter g xs"
proof (induction xs)
  case (Cons a xs)
  then have "f a = g a" "List.map_filter f xs = List.map_filter g xs" by simp_all
  then show ?case by (simp add: map_filter_simps split: option.split)
qed (simp add: map_filter_simps)

lemma transfers_found_rows:
  assumes "keys_print_long K" and "transaction_ok K tx"
  shows "transfers_found K tx =
    List.map_filter (checked_row K tx) (instructions (tx_message (et_transaction tx)))"
  unfolding transfers_found_def map_map_filter
  by (rule map_filter_cong, rule transfer_found_row [OF assms(1)])
     (use assms(2) in \<open>auto simp: transaction_ok_def instruction_ok_def list_all_iff\<close>)

subsection \<open>Counting accounts\<close>

lemma accounts_partition: "writable_accounts K m + readonly_accounts K m = length (account_keys m)"
proof -
  have "length (filter P xs) + length (filter (\<lambda>x. \<not> P x) xs) = length xs" for P and xs :: "'z list"
    by (rule sum_length_filter_compl)
  from this [of "\<lambda>(idx, _). is_maybe_writable K m idx" "List.enumerate 0 (account_keys m)"]
  show ?thesis by (simp add: writable_accounts_def readonly_accounts_def case_prod_beta')
qed

lemma unat_usize_as_i32: "n < 2 ^ 32 \<Longrightarrow> unat (usize_as_i32 n) = n"
  by (simp add: usize_as_i32_def unat_of_nat take_bit_nat_eq_self)

lemma copy_map_lookup: "hm_ok pd \<Longrightarrow> map_of (copy_map pd) = map_of pd"
  by (simp add: copy_map_def hm.insert_all_copy hm_ok_def)

subsection \<open>Properties\<close>

text \<open>A block of one demonstration transaction.\<close>

definition demo_tx :: enriched_transaction where
  "demo_tx = \<lparr>et_signature = ''signature'', et_slot = 42, et_error = None, et_meta = Some demo_meta,
     et_transaction = demo_transaction\<rparr>"

definition demo_block :: block where
  "demo_block = \<lparr>blk_slot = 42, blk_blockhash = ''hash'', blk_parent_slot = 41, blk_timestamp = 1700000000,
     blk_previous_blockhash = ''parent'', blk_leader = ''leader'', blk_leader_reward = Some 3,
     blk_total_compute_units = 150, blk_total_fee = 5000, blk_transactions = [demo_tx]\<rparr>"

lemma demo_tx_simps [simp]:
  "et_transaction demo_tx = demo_transaction" "et_meta demo_tx = Some demo_meta"
  "et_signature demo_tx = ''signature''" "blk_transactions demo_block = [demo_tx]"
  by (simp_all add: demo_tx_def demo_block_def)

lemma demo_tx_ok [simp]: "transaction_ok demo_sdk demo_tx"
  by (simp add: transaction_ok_def instruction_ok_def program_key_ok_def transfer_accounts_ok_def
      is_token_program_def)

lemma demo_token_id_ok: "token_id_ok demo_sdk"
  by (auto simp: token_id_ok_def demo_key_text_def program_ids numeral_eq_Suc split: pubkey.split if_splits)

text \<open>C3: The conversion of a block is total behind one test: if every index its instructions use is in
  range (program, accounts, and the two or three accounts of a token transfer), it returns the rows
  of all transactions, instructions and transfers in order; else it panics. It never returns an
  error, so the error branches of its callers are dead.\<close>

theorem convert_block_data_total:
  "convert_block_data K b =
     (if list_all (transaction_ok K) (blk_transactions b) then Inr (Inr (block_data_of K b))
      else Inl IndexOutOfBounds)"
  by (rule convert_block_data_eq)

text \<open>The header of a converted block loses nothing. Its signed fields, read as integers, are the
  unsigned numbers of the block up to 2^63 and those less 2^64 from there on, so a slot that large
  comes out negative but casting it back restores it; the printed fee reads back as the total fee.\<close>

lemma header_round_trip:
  "sint (pb_slot (convert_header b)) =
     (if unat (blk_slot b) < 2 ^ 63 then int (unat (blk_slot b)) else int (unat (blk_slot b)) - 2 ^ 64) \<and>
   as_u64 (pb_slot (convert_header b)) = blk_slot b \<and>
   as_u64 (pb_parent_slot (convert_header b)) = blk_parent_slot b \<and>
   as_u64 (pb_total_compute_units (convert_header b)) = blk_total_compute_units b \<and>
   undec (pb_total_fee (convert_header b)) = unat (blk_total_fee b) \<and>
   as_u64 (pb_leader_reward (convert_header b)) = (case blk_leader_reward b of Some r \<Rightarrow> r | None \<Rightarrow> 0)"
proof -
  have "sint (as_i64 w) = (if unat w < 2 ^ 63 then int (unat w) else int (unat w) - 2 ^ 64)" for w
  proof -
    have "uint w = int (unat w)" by simp
    moreover have "int n < 2 ^ 63 \<longleftrightarrow> n < 2 ^ 63" for n
      by (metis of_nat_less_iff of_nat_numeral of_nat_power)
    ultimately show ?thesis by (simp only: sint_i64 as_i64_def ucast_id)
  qed
  moreover have "as_u64 0 = 0" by (simp add: as_u64_def)
  ultimately show ?thesis by (simp add: convert_header_def u64_to_string_def split: option.split)
qed

text \<open>C21: A block's token transfers are exactly the \<open>TransferChecked\<close> instructions of the token program,
  in order: each gives one row with its own source, destination, mint and amount, and no plain
  \<open>Transfer\<close> gives any.\<close>

theorem block_transfers_are_checked_transfers:
  assumes "keys_print_long K" and "convert_block_data K b = Inr (Inr bd)"
  shows "bd_token_transfers bd =
    concat (map (\<lambda>tx. List.map_filter (checked_row K tx) (instructions (tx_message (et_transaction tx))))
      (blk_transactions b))"
proof -
  have ok: "list_all (transaction_ok K) (blk_transactions b)" and bd: "bd = block_data_of K b"
    using assms(2) by (auto simp: convert_block_data_eq split: if_splits)
  have "map (transfers_found K) (blk_transactions b) =
      map (\<lambda>tx. List.map_filter (checked_row K tx) (instructions (tx_message (et_transaction tx))))
        (blk_transactions b)"
    using ok transfers_found_rows [OF assms(1)] by (simp add: list_all_iff)
  then show ?thesis by (simp only: bd block_data_of_def block_data.simps)
qed

theorem block_transfers_are_checked_transfers_witness:
  "bd_token_transfers (block_data_of demo_sdk demo_block) =
     [\<lparr>ptt_from_address = demo_key_text (Pubkey [5]), ptt_to_address = demo_key_text (Pubkey [7]),
       ptt_amount = ''1'', ptt_token_type = ''NFT'', ptt_token_mint = demo_key_text (Pubkey [6]),
       ptt_transaction_signature = ''signature''\<rparr>]"
proof -
  have "convert_block_data demo_sdk demo_block = Inr (Inr (block_data_of demo_sdk demo_block))"
    by (simp add: convert_block_data_eq)
  from block_transfers_are_checked_transfers [OF demo_keys_long this] show ?thesis
    by (simp add: checked_row_def is_token_program_def map_filter_simps account_text_def u64_to_string_def dec.simps digit_def)
qed

text \<open>The two account counts of a transaction account for every key of its message exactly once,
  plus the accounts it created and the token balances it left, as long as the sum fits an \<open>i32\<close>.\<close>

lemma account_counts_complete:
  assumes "et_meta tx = Some mt"
    and "length (account_keys (tx_message (et_transaction tx))) + (length (post_balances mt) - length (pre_balances mt))
      + (case post_token_balances mt of OptSome bs \<Rightarrow> length bs | _ \<Rightarrow> 0) < 2 ^ 31"
  shows "unat (ptx_write_account_count (transaction_row K tx)) + unat (ptx_read_account_count (transaction_row K tx)) =
    length (account_keys (tx_message (et_transaction tx))) + (length (post_balances mt) - length (pre_balances mt))
      + (case post_token_balances mt of OptSome bs \<Rightarrow> length bs | _ \<Rightarrow> 0)"
proof -
  let ?m = "tx_message (et_transaction tx)"
  let ?n = "(length (post_balances mt) - length (pre_balances mt))
      + (case post_token_balances mt of OptSome bs \<Rightarrow> length bs | _ \<Rightarrow> 0)"
  have p: "writable_accounts K ?m + readonly_accounts K ?m = length (account_keys ?m)" by (rule accounts_partition)
  have "unat (usize_as_i32 (writable_accounts K ?m + ?n)) = writable_accounts K ?m + ?n"
    by (rule unat_usize_as_i32) (use p assms(2) in auto)
  moreover have "unat (usize_as_i32 (readonly_accounts K ?m)) = readonly_accounts K ?m"
    by (rule unat_usize_as_i32) (use p assms(2) in auto)
  ultimately show ?thesis
    using p by (simp add: transaction_row_def convert_transaction_row_def Let_def write_account_count_def
        assms(1) add.assoc)
qed

lemma account_counts_complete_witness:
  "unat (ptx_write_account_count (transaction_row demo_sdk demo_tx)) +
   unat (ptx_read_account_count (transaction_row demo_sdk demo_tx)) = 9"
  using account_counts_complete [of demo_tx demo_meta demo_sdk] by (simp add: demo_meta_def)

text \<open>C27: Every instruction of a transaction gets its row, in order: the row carries the printed program
  id, the raw data, the printed keys of its accounts in order, and what \<open>parse_instruction\<close>
  reported, the copied map holding the same entries.\<close>

theorem instruction_rows_faithful:
  assumes "convert_one K tx = Inr (row, ixs, transfers)"
    and "i < length (instructions (tx_message (et_transaction tx)))"
  shows "length ixs = length (instructions (tx_message (et_transaction tx))) \<and>
    (let m = tx_message (et_transaction tx); ix = instructions m ! i; r = ixs ! i in
     pix_order_index r = usize_as_i32 i \<and> pix_data r = ix_data ix \<and>
     program_of K m ix = Inr (pix_program_id r) \<and>
     map pia_address (pix_accounts r) = map (\<lambda>a. pubkey_to_string K (account_keys m ! unat a)) (ix_accounts ix) \<and>
     (\<exists>pd. parse_instruction K ix m = Inr (pix_instruction_type r, pd) \<and> map_of (pix_parsed_data r) = map_of pd))"
proof -
  let ?m = "tx_message (et_transaction tx)"
  have ok: "transaction_ok K tx" and rows: "ixs = map (instruction_row K ?m) (List.enumerate 0 (instructions ?m))"
    using assms(1) by (auto simp: convert_one_eq instruction_rows_def Let_def split: if_splits)
  have key: "program_key_ok ?m (instructions ?m ! i)"
    using ok assms(2) by (simp add: transaction_ok_def instruction_ok_def list_all_length)
  have r: "ixs ! i = instruction_row K ?m (i, instructions ?m ! i)"
    using rows assms(2) by (simp add: nth_enumerate_eq)
  have "map pia_address (map (account_row K ?m) (List.enumerate 0 as)) =
      map (\<lambda>a. pubkey_to_string K (account_keys ?m ! unat a)) as" for as
    by (rule nth_equalityI) (simp_all add: account_row_def nth_enumerate_eq)
  moreover have "length ixs = length (instructions ?m)" by (simp add: rows)
  ultimately show ?thesis
    using key
    by (simp add: r Let_def instruction_row_def parse_instruction_eq copy_map_lookup parsed_instruction_ok)
       (metis prod.collapse)
qed

theorem instruction_rows_faithful_witness:
  "\<exists>row ixs transfers. convert_one demo_sdk demo_tx = Inr (row, ixs, transfers) \<and> length ixs = 1 \<and>
     pix_data (ixs ! 0) = [12, 1, 0]"
proof -
  obtain row ixs transfers where c: "convert_one demo_sdk demo_tx = Inr (row, ixs, transfers)"
    by (simp add: convert_one_eq)
  from instruction_rows_faithful [OF c, of 0] c show ?thesis by (simp add: Let_def)
qed

text \<open>C39: A transaction of nothing but \<open>TransferChecked\<close> instructions is categorised \<open>Unknown\<close> and each
  of its instructions typed \<open>Unknown\<close>, although each gives a token transfer row: the categoriser and
  the instruction parser do not know the instruction that the transfer extraction relies on.\<close>

theorem checked_transfers_are_unknown:
  assumes "token_id_ok K" and "transaction_ok K tx"
    and "list_all (\<lambda>ix. program_text K (tx_message (et_transaction tx)) ix = TOKEN_PROGRAM \<and>
      (\<exists>a d. unpack_token K (ix_data ix) = Some (TokTransferChecked a d)))
      (instructions (tx_message (et_transaction tx)))"
  shows "\<exists>row ixs transfers. convert_one K tx = Inr (row, ixs, transfers) \<and>
    ptx_transaction_category row = ''Unknown'' \<and> list_all (\<lambda>r. pix_instruction_type r = ''Unknown'') ixs \<and>
    length transfers = length (instructions (tx_message (et_transaction tx)))"
proof -
  let ?m = "tx_message (et_transaction tx)"
  have "instruction_signal K ?m ix = NoSignal" if "ix \<in> set (instructions ?m)" for ix
    using assms(3) that by (auto simp: list_all_iff instruction_signal_def signal_of_def)
  then have "strongest (map (instruction_signal K ?m) (instructions ?m)) = NoSignal"
    by (induction "instructions ?m") (auto simp: strongest_Max intro!: Max_eqI)
  then have c: "transaction_category_of K tx = UnknownCategory"
    by (simp add: transaction_category_of_def Let_def)
  have ty: "pix_instruction_type (instruction_row K ?m (j, ix)) = ''Unknown''" if "ix \<in> set (instructions ?m)" for j ix
    using assms(3) that
    by (auto simp: list_all_iff instruction_row_def parsed_instruction_def parse_token_instruction_def)
  have f: "transfer_found K tx ix \<noteq> None" if "ix \<in> set (instructions ?m)" for ix
    using that assms checked_transfer_found by (auto simp: list_all_iff transaction_ok_def)
  have "length (List.map_filter (transfer_found K tx) xs) = length xs"
    if "\<And>ix. ix \<in> set xs \<Longrightarrow> transfer_found K tx ix \<noteq> None" for xs
    using that by (induction xs) (fastforce simp: map_filter_simps split: option.split)+
  then have "length (transfers_found K tx) = length (instructions ?m)" using f by (simp add: transfers_found_def)
  moreover have "list_all (\<lambda>r. pix_instruction_type r = ''Unknown'') (instruction_rows K tx)"
    using ty by (auto simp: list_all_iff instruction_rows_def Let_def in_set_enumerate_eq)
  ultimately show ?thesis
    using c assms(2) by (simp add: convert_one_eq transaction_row_def convert_transaction_row_def Let_def)
qed

theorem checked_transfers_are_unknown_witness:
  "\<exists>row ixs transfers. convert_one demo_sdk demo_tx = Inr (row, ixs, transfers) \<and>
     ptx_transaction_category row = ''Unknown'' \<and> length transfers = 1"
  using checked_transfers_are_unknown [OF demo_token_id_ok demo_tx_ok]
  by (fastforce simp: program_text_def)

end
