(* ===== verification/Slot_Subscription.thy ===== *)
theory Slot_Subscription
  imports Rpc_Client
begin

section \<open>The slot subscription\<close>

text \<open>
  \<open>subscribe_slots\<close>, \<open>run_slot_subscription\<close> and \<open>handle_reconnect\<close> of \<open>rpc/client.rs\<close> as a state
  machine. The task is suspended at every \<open>await\<close>; a phase names the \<open>await\<close> it is suspended at,
  and an event says what the environment does next: an answer of the WebSocket library, a send
  that can complete, the holder of the \<open>Subscription\<close> receiving, cancelling or dropping its end.
  The channel holds at most 100 updates; a send waits while it is full and fails once the
  receiver is gone.
\<close>

datatype slot_update = NewSlot slot_info | NewBlock block | UpdateError rpc_error

definition CHANNEL_CAPACITY :: nat where
  "CHANNEL_CAPACITY = 100"

text \<open>The three \<open>return\<close> statements of the task.\<close>

datatype exit_point = ConnectExit | SubscribeExit | ShutdownExit

datatype phase =
    Connecting
  | SendConnectError string
  | Subscribing
  | SendSubscribeError string
  | Streaming
  | SendSlot slot_info
  | FetchBlock u64
  | SendUpdate slot_update
  | Sleeping
  | Finished exit_point
  | Crashed panic

record ('c, 'w) sub_env =
  env_profile :: profile
  env_sdk :: sdk
  env_api :: "('c, 'w) rpc_api"
  env_client :: "'c solana_client"
  env_id :: string

record 'w sub_state =
  phase :: phase
  current_endpoint :: nat
  reconnect_delay :: u64
  slept :: "u64 list"
  cancelled :: bool
  rx_open :: bool
  queue :: "slot_update list"
  received :: "slot_update list"
  shared :: "'w sys"

datatype event =
    PickEndpoint
  | Connect "string + unit"
  | Subscribe "string + unit"
  | Notify "slot_info option"
  | Shutdown
  | Sent
  | Fetched
  | Wake
  | Recv
  | Cancel
  | DropRx
  | UnsubscribeAll

subsection \<open>Reconnecting\<close>

definition handle_reconnect :: "profile \<Rightarrow> string list \<Rightarrow> nat \<times> u64 \<Rightarrow> (nat \<times> u64) outcome" where
  "handle_reconnect p eps = (\<lambda>(endpoint, delay).
     if length eps = 0 then Inl RemainderByZero
     else and_then (mul_u64 p delay 2) (\<lambda>next_delay.
       Inr ((endpoint + 1) mod length eps, if 60 < next_delay then 60 else next_delay)))"

definition reconnect :: "('c, 'w) sub_env \<Rightarrow> 'w sub_state \<Rightarrow> 'w sub_state" where
  "reconnect E st =
     (case handle_reconnect (env_profile E) (ws_endpoints (env_client E))
             (current_endpoint st, reconnect_delay st) of
        Inl e \<Rightarrow> st\<lparr>phase := Crashed e\<rparr>
      | Inr (i, d) \<Rightarrow>
          st\<lparr>phase := Sleeping, current_endpoint := i, reconnect_delay := d, slept := slept st @ [d]\<rparr>)"

definition cleanup :: "('c, 'w) sub_env \<Rightarrow> 'w sub_state \<Rightarrow> 'w sub_state" where
  "cleanup E st =
     st\<lparr>shared := (shared st)
        \<lparr>active_subscriptions := active_subscriptions (shared st) - {env_id E}\<rparr>\<rparr>"

subsection \<open>Starting and stepping\<close>

definition subscribe_slots :: "('c, 'w) sub_env \<Rightarrow> 'w sys \<Rightarrow> 'w sub_state" where
  "subscribe_slots E s =
     \<lparr>phase = Connecting, current_endpoint = 0, reconnect_delay = 1, slept = [], cancelled = False,
      rx_open = True, queue = [], received = [],
      shared = s\<lparr>active_subscriptions := insert (env_id E) (active_subscriptions s)\<rparr>\<rparr>"

text \<open>
  \<open>update_tx.send(u).await\<close>: \<open>None\<close> while it waits, else the state and whether it failed.
\<close>

definition send_update :: "slot_update \<Rightarrow> 'w sub_state \<Rightarrow> (bool \<times> 'w sub_state) option" where
  "send_update u st =
     (if \<not> rx_open st then Some (True, st)
      else if length (queue st) < CHANNEL_CAPACITY then Some (False, st\<lparr>queue := queue st @ [u]\<rparr>)
      else None)"

definition connect_error :: "string \<Rightarrow> slot_update" where
  "connect_error err = UpdateError (InvalidResponse (''Failed to connect to WebSocket: '' @ err))"

definition subscribe_error :: "string \<Rightarrow> slot_update" where
  "subscribe_error err = UpdateError (InvalidResponse (''Failed to subscribe: '' @ err))"

definition finish_send :: "('c, 'w) sub_env \<Rightarrow> 'w sub_state \<Rightarrow> 'w sub_state option" where
  "finish_send E st =
     (case phase st of
        SendConnectError err \<Rightarrow>
          map_option (\<lambda>(failed, st').
            if failed then st'\<lparr>phase := Finished ConnectExit\<rparr> else reconnect E st')
            (send_update (connect_error err) st)
      | SendSubscribeError err \<Rightarrow>
          map_option (\<lambda>(failed, st').
            if failed then (cleanup E st')\<lparr>phase := Finished SubscribeExit\<rparr> else reconnect E st')
            (send_update (subscribe_error err) st)
      | SendSlot info \<Rightarrow>
          map_option (\<lambda>(_, st').
            st'\<lparr>phase := (if info_root info = info_slot info then FetchBlock (info_slot info)
                          else Streaming)\<rparr>)
            (send_update (NewSlot info) st)
      | SendUpdate u \<Rightarrow> map_option (\<lambda>(_, st'). st'\<lparr>phase := Streaming\<rparr>) (send_update u st)
      | _ \<Rightarrow> None)"

definition fetch :: "('c, 'w) sub_env \<Rightarrow> u64 \<Rightarrow> 'w sub_state \<Rightarrow> 'w sub_state" where
  "fetch E slot st =
     (case get_block (env_profile E) (env_sdk E) (env_api E) (env_client E) slot (shared st) of
        (Inl e, s') \<Rightarrow> st\<lparr>phase := Crashed e, shared := s'\<rparr>
      | (Inr (Inl err), s') \<Rightarrow> st\<lparr>phase := SendUpdate (UpdateError err), shared := s'\<rparr>
      | (Inr (Inr b), s') \<Rightarrow> st\<lparr>phase := SendUpdate (NewBlock b), shared := s'\<rparr>)"

text \<open>
  An attempt to connect first reads \<open>ws_endpoints[current_endpoint]\<close>: out of range it panics before
  any connection is tried (\<open>PickEndpoint\<close>), and no answer can come; in range the read is part of starting the
  attempt, and the task waits for the answer of the library (\<open>Connect\<close>).
\<close>

fun react :: "('c, 'w) sub_env \<Rightarrow> event \<Rightarrow> 'w sub_state \<Rightarrow> 'w sub_state option" where
  "react E PickEndpoint st =
     (if phase st = Connecting \<and> length (ws_endpoints (env_client E)) \<le> current_endpoint st
      then Some (st\<lparr>phase := Crashed IndexOutOfBounds\<rparr>) else None)"
| "react E (Connect r) st =
     (if phase st \<noteq> Connecting \<or> length (ws_endpoints (env_client E)) \<le> current_endpoint st then None
      else Some (st\<lparr>phase := (case r of Inl err \<Rightarrow> SendConnectError err | Inr _ \<Rightarrow> Subscribing)\<rparr>))"
| "react E (Subscribe r) st =
     (if phase st \<noteq> Subscribing then None
      else (case r of
          Inl err \<Rightarrow> Some (st\<lparr>phase := SendSubscribeError err\<rparr>)
        | Inr _ \<Rightarrow> Some (st\<lparr>phase := Streaming, reconnect_delay := 1\<rparr>)))"
| "react E (Notify n) st =
     (if phase st \<noteq> Streaming then None
      else (case n of
          Some info \<Rightarrow> Some (st\<lparr>phase := SendSlot info\<rparr>)
        | None \<Rightarrow> Some (reconnect E st)))"
| "react E Shutdown st =
     (if phase st = Streaming \<and> cancelled st
      then Some ((cleanup E st)\<lparr>phase := Finished ShutdownExit\<rparr>) else None)"
| "react E Sent st = finish_send E st"
| "react E Fetched st =
     (case phase st of FetchBlock slot \<Rightarrow> Some (fetch E slot st) | _ \<Rightarrow> None)"
| "react E Wake st = (if phase st = Sleeping then Some (st\<lparr>phase := Connecting\<rparr>) else None)"
| "react E Recv st =
     (case queue st of
        u # us \<Rightarrow> if rx_open st then Some (st\<lparr>queue := us, received := received st @ [u]\<rparr>) else None
      | [] \<Rightarrow> None)"
| "react E Cancel st = Some (st\<lparr>cancelled := True\<rparr>)"
| "react E DropRx st = Some (st\<lparr>rx_open := False, queue := []\<rparr>)"
| "react E UnsubscribeAll st = Some (st\<lparr>shared := unsubscribe_all (shared st)\<rparr>)"

fun run :: "('c, 'w) sub_env \<Rightarrow> event list \<Rightarrow> 'w sub_state \<Rightarrow> 'w sub_state option" where
  "run E [] st = Some st"
| "run E (ev # evs) st = Option.bind (react E ev st) (run E evs)"

text \<open>
  Dropping a \<open>Subscription\<close>: \<open>Drop::drop\<close> sends on the cancel channel, then the fields go, and
  with them the receiver.
\<close>

definition drop_subscription :: "event list" where
  "drop_subscription = [Cancel, DropRx]"

inductive reachable :: "('c, 'w) sub_env \<Rightarrow> 'w sys \<Rightarrow> 'w sub_state \<Rightarrow> bool"
  for E :: "('c, 'w) sub_env" and s0 :: "'w sys" where
  start: "reachable E s0 (subscribe_slots E s0)"
| step: "reachable E s0 st \<Longrightarrow> react E ev st = Some st' \<Longrightarrow> reachable E s0 st'"

lemma reachable_run: "reachable E s0 st \<Longrightarrow> run E evs st = Some st' \<Longrightarrow> reachable E s0 st'"
  by (induction evs arbitrary: st) (auto split: bind_splits intro: reachable.step)

subsection \<open>Backoff and rotation\<close>

definition cursor_ok :: "profile \<times> string list \<Rightarrow> nat \<times> u64 \<Rightarrow> bool" where
  "cursor_ok E c \<longleftrightarrow> fst c < length (snd E) \<and> 1 \<le> unat (snd c) \<and> unat (snd c) \<le> 60"

definition reconnect_step :: "profile \<times> string list \<Rightarrow> nat \<times> u64 \<Rightarrow> nat \<times> u64" where
  "reconnect_step E c = (case handle_reconnect (fst E) (snd E) c of Inr c' \<Rightarrow> c' | Inl _ \<Rightarrow> c)"

lemma mul_u64_small:
  assumes "unat d \<le> 60"
  shows "mul_u64 p d 2 = Inr (d * 2) \<and> unat (d * 2) = 2 * unat d"
proof -
  have "unat d * unat (2 :: u64) < 2 ^ LENGTH(64)" using assms by simp
  then have "unat (d * 2) = unat d * unat (2 :: u64)" by (simp only: unat_mult_lem)
  with assms show ?thesis by (simp add: mul_u64_def)
qed

lemma handle_reconnect_ok:
  assumes "cursor_ok (p, eps) (i, d)"
  shows "\<exists>d'. handle_reconnect p eps (i, d) = Inr (Suc i mod length eps, d') \<and>
    unat d' = min 60 (2 * unat d)"
proof -
  have m: "mul_u64 p d 2 = Inr (d * 2)" "unat (d * 2) = 2 * unat d"
    using mul_u64_small [of d p] assms by (simp_all add: cursor_ok_def)
  have "(60 < d * 2) = (60 < 2 * unat d)" by (simp add: word_less_nat_alt m)
  with m assms show ?thesis by (auto simp: handle_reconnect_def cursor_ok_def min_def)
qed

lemma reconnect_step_ok:
  assumes "cursor_ok E c"
  shows "fst (reconnect_step E c) = Suc (fst c) mod length (snd E)"
    and "unat (snd (reconnect_step E c)) = min 60 (2 * unat (snd c))"
    and "cursor_ok E (reconnect_step E c)"
proof -
  obtain p eps i d where E: "E = (p, eps)" "c = (i, d)" by fastforce
  obtain d' where "handle_reconnect p eps (i, d) = Inr (Suc i mod length eps, d')"
      "unat d' = min 60 (2 * unat d)"
    using handle_reconnect_ok assms E by blast
  with assms E show "fst (reconnect_step E c) = Suc (fst c) mod length (snd E)"
    and "unat (snd (reconnect_step E c)) = min 60 (2 * unat (snd c))"
    and "cursor_ok E (reconnect_step E c)"
    by (auto simp: reconnect_step_def cursor_ok_def)
qed

interpretation ws_ring: cursor_ring reconnect_step fst "\<lambda>E. length (snd E)" cursor_ok
  by unfold_locales (simp_all add: reconnect_step_ok, simp add: cursor_ok_def)

lemma backoff_delay:
  assumes "cursor_ok E (i, 1)"
  shows "unat (snd ((reconnect_step E ^^ k) (i, 1))) = min 60 (2 ^ k)"
proof (induction k)
  case 0
  then show ?case by simp
next
  case (Suc k)
  have "cursor_ok E ((reconnect_step E ^^ k) (i, 1))" using assms by (rule ws_ring.ok_steps)
  with Suc show ?case by (simp add: reconnect_step_ok min_def)
qed

lemma reconnect_cursor:
  assumes "cursor_ok (env_profile E, ws_endpoints (env_client E)) (current_endpoint st, reconnect_delay st)"
  shows "\<exists>i d. reconnect E st =
      st\<lparr>phase := Sleeping, current_endpoint := i, reconnect_delay := d, slept := slept st @ [d]\<rparr> \<and>
    (i, d) = reconnect_step (env_profile E, ws_endpoints (env_client E))
      (current_endpoint st, reconnect_delay st) \<and>
    cursor_ok (env_profile E, ws_endpoints (env_client E)) (i, d)"
  using handle_reconnect_ok [OF assms] reconnect_step_ok(3) [OF assms]
  by (auto simp: reconnect_def reconnect_step_def)

subsection \<open>What a step leaves alone\<close>

text \<open>
  Every reaction is one of a few shapes. These lemmas say what each helper does to the fields the
  invariants talk about, so that an invariant is checked event by event.
\<close>

lemma reconnect_frame [simp]:
  "cancelled (reconnect E st) = cancelled st" "rx_open (reconnect E st) = rx_open st"
  "queue (reconnect E st) = queue st" "received (reconnect E st) = received st"
  "shared (reconnect E st) = shared st"
  by (auto simp: reconnect_def split: sum.split)

lemma reconnect_phase: "phase (reconnect E st) = Sleeping \<or> (\<exists>e. phase (reconnect E st) = Crashed e)"
  by (auto simp: reconnect_def split: sum.split)

lemma cleanup_frame [simp]:
  "phase (cleanup E st) = phase st" "cancelled (cleanup E st) = cancelled st"
  "current_endpoint (cleanup E st) = current_endpoint st"
  "reconnect_delay (cleanup E st) = reconnect_delay st"
  "rx_open (cleanup E st) = rx_open st" "queue (cleanup E st) = queue st"
  "received (cleanup E st) = received st" "slept (cleanup E st) = slept st"
  "active_subscriptions (shared (cleanup E st)) = active_subscriptions (shared st) - {env_id E}"
  "current (shared (cleanup E st)) = current (shared st)"
  by (simp_all add: cleanup_def)

lemma fetch_frame [simp]:
  "current_endpoint (fetch E slot st) = current_endpoint st"
  "reconnect_delay (fetch E slot st) = reconnect_delay st"
  "cancelled (fetch E slot st) = cancelled st" "rx_open (fetch E slot st) = rx_open st"
  "queue (fetch E slot st) = queue st" "received (fetch E slot st) = received st"
  by (auto simp: fetch_def split: prod.split sum.split)

lemma send_update_open:
  "rx_open st \<Longrightarrow> send_update u st =
     (if length (queue st) < CHANNEL_CAPACITY then Some (False, st\<lparr>queue := queue st @ [u]\<rparr>) else None)"
  by (simp add: send_update_def)

lemma finish_send_closed:
  "\<not> rx_open st \<Longrightarrow> finish_send E st =
     (case phase st of
        SendConnectError _ \<Rightarrow> Some (st\<lparr>phase := Finished ConnectExit\<rparr>)
      | SendSubscribeError _ \<Rightarrow> Some ((cleanup E st)\<lparr>phase := Finished SubscribeExit\<rparr>)
      | SendSlot info \<Rightarrow>
          Some (st\<lparr>phase := (if info_root info = info_slot info then FetchBlock (info_slot info)
                             else Streaming)\<rparr>)
      | SendUpdate _ \<Rightarrow> Some (st\<lparr>phase := Streaming\<rparr>)
      | _ \<Rightarrow> None)"
  by (simp add: finish_send_def send_update_def split: phase.split)

lemma finish_send_open:
  "rx_open st \<Longrightarrow> finish_send E st =
     (if \<not> length (queue st) < CHANNEL_CAPACITY then None else
      (case phase st of
         SendConnectError err \<Rightarrow> Some (reconnect E (st\<lparr>queue := queue st @ [connect_error err]\<rparr>))
       | SendSubscribeError err \<Rightarrow> Some (reconnect E (st\<lparr>queue := queue st @ [subscribe_error err]\<rparr>))
       | SendSlot info \<Rightarrow>
           Some (st\<lparr>queue := queue st @ [NewSlot info],
             phase := (if info_root info = info_slot info then FetchBlock (info_slot info)
                       else Streaming)\<rparr>)
       | SendUpdate u \<Rightarrow> Some (st\<lparr>queue := queue st @ [u], phase := Streaming\<rparr>)
       | _ \<Rightarrow> None))"
  by (simp add: finish_send_def send_update_def split: phase.split)

lemma error_not_block [simp]: "connect_error err \<noteq> NewBlock b" "subscribe_error err \<noteq> NewBlock b"
  by (simp_all add: connect_error_def subscribe_error_def)

lemma send_update_closed [simp]: "\<not> rx_open st \<Longrightarrow> send_update u st = Some (True, st)"
  by (simp add: send_update_def)

subsection \<open>The channel: bounded, in order, blocks announced by their slot\<close>

definition log :: "'w sub_state \<Rightarrow> slot_update list" where
  "log st = received st @ queue st"

definition announces :: "u64 \<Rightarrow> slot_update list \<Rightarrow> bool" where
  "announces slot us \<longleftrightarrow>
     (\<exists>vs info. us = vs @ [NewSlot info] \<and> info_slot info = slot \<and> info_root info = slot)"

text \<open>Every \<open>NewBlock\<close> of a log comes right after the \<open>NewSlot\<close> of its own, rooted slot.\<close>

definition blocks_announced :: "slot_update list \<Rightarrow> bool" where
  "blocks_announced us \<longleftrightarrow> (\<forall>vs b ws. us = vs @ NewBlock b # ws \<longrightarrow> announces (blk_slot b) vs)"

lemma blocks_announced_Nil [simp]: "blocks_announced []"
  by (simp add: blocks_announced_def)

lemma blocks_announced_snoc:
  "blocks_announced (us @ [u]) \<longleftrightarrow>
     blocks_announced us \<and> (\<forall>b. u = NewBlock b \<longrightarrow> announces (blk_slot b) us)"
proof
  assume a: "blocks_announced (us @ [u])"
  have "blocks_announced us"
    unfolding blocks_announced_def
  proof (intro allI impI)
    fix vs b ws assume "us = vs @ NewBlock b # ws"
    then have "us @ [u] = vs @ NewBlock b # (ws @ [u])" by simp
    with a show "announces (blk_slot b) vs" unfolding blocks_announced_def by blast
  qed
  moreover have "\<forall>b. u = NewBlock b \<longrightarrow> announces (blk_slot b) us"
    using a unfolding blocks_announced_def by blast
  ultimately show "blocks_announced us \<and> (\<forall>b. u = NewBlock b \<longrightarrow> announces (blk_slot b) us)" by blast
next
  assume a: "blocks_announced us \<and> (\<forall>b. u = NewBlock b \<longrightarrow> announces (blk_slot b) us)"
  show "blocks_announced (us @ [u])"
    unfolding blocks_announced_def
  proof (intro allI impI)
    fix vs b ws assume eq: "us @ [u] = vs @ NewBlock b # ws"
    show "announces (blk_slot b) vs"
    proof (cases ws rule: rev_cases)
      case Nil
      with eq a show ?thesis by simp
    next
      case (snoc ws' w)
      with eq have "us = vs @ NewBlock b # ws'" by simp
      with a show ?thesis unfolding blocks_announced_def by blast
    qed
  qed
qed

lemma blocks_announced_prefix: "blocks_announced (us @ vs) \<Longrightarrow> blocks_announced us"
  by (induction vs rule: rev_induct) (simp_all add: blocks_announced_snoc flip: append_assoc)

definition in_flight_ok :: "'w sub_state \<Rightarrow> bool" where
  "in_flight_ok st \<longleftrightarrow>
     (rx_open st \<longrightarrow>
       (case phase st of
          FetchBlock slot \<Rightarrow> announces slot (log st)
        | SendUpdate (NewBlock b) \<Rightarrow> announces (blk_slot b) (log st)
        | _ \<Rightarrow> True))"

lemma in_flight_cong:
  "log st' = log st \<Longrightarrow> rx_open st' = rx_open st \<Longrightarrow> phase st' = phase st \<Longrightarrow>
   in_flight_ok st' = in_flight_ok st"
  by (simp add: in_flight_ok_def cong: phase.case_cong slot_update.case_cong)

definition channel_inv :: "'w sub_state \<Rightarrow> bool" where
  "channel_inv st \<longleftrightarrow>
     length (queue st) \<le> CHANNEL_CAPACITY \<and> blocks_announced (log st) \<and> in_flight_ok st"

definition calm :: "phase \<Rightarrow> bool" where
  "calm ph \<longleftrightarrow> (\<forall>slot. ph \<noteq> FetchBlock slot) \<and> (\<forall>b. ph \<noteq> SendUpdate (NewBlock b))"

lemma calm_simps [simp]:
  "calm Connecting" "calm (SendConnectError err)" "calm Subscribing" "calm (SendSubscribeError err)"
  "calm Streaming" "calm (SendSlot info)" "calm Sleeping" "calm (Finished x)" "calm (Crashed e)"
  "calm (SendUpdate (UpdateError er))"
  by (simp_all add: calm_def)

lemma calm_reconnect [simp]: "calm (phase (reconnect E st))"
  using reconnect_phase [of E st] by auto

lemma channel_inv_calm:
  assumes "channel_inv st" and "queue st' = queue st" and "received st' = received st"
    and "calm (phase st')"
  shows "channel_inv st'"
  using assms by (auto simp: channel_inv_def in_flight_ok_def log_def calm_def
      split: phase.split slot_update.split)

text \<open>Pushing an update that is not a block, or a block just announced, and then moving on.\<close>

lemma channel_inv_push:
  assumes "channel_inv st" and "length (queue st) < CHANNEL_CAPACITY"
    and "\<And>b. u = NewBlock b \<Longrightarrow> announces (blk_slot b) (log st)"
    and "queue st' = queue st @ [u]" and "received st' = received st"
    and "calm (phase st') \<or> (\<exists>slot. phase st' = FetchBlock slot \<and> announces slot (log st @ [u]))"
  shows "channel_inv st'"
proof -
  have l: "log st' = log st @ [u]" using assms(4,5) by (simp add: log_def)
  have "in_flight_ok st'"
    using assms(6) l by (auto simp: in_flight_ok_def calm_def split: phase.split slot_update.split)
  with assms l show ?thesis by (auto simp: channel_inv_def blocks_announced_snoc)
qed

lemma finish_send_channel_inv:
  assumes "finish_send E st = Some st'" and "channel_inv st"
  shows "channel_inv st'"
proof (cases "rx_open st")
  case False
  with assms(1) have "queue st' = queue st \<and> received st' = received st \<and>
      (calm (phase st') \<or> \<not> rx_open st')"
    by (auto simp: finish_send_def calm_def split: phase.splits)
  with assms(2) show ?thesis
    by (auto simp: channel_inv_def in_flight_ok_def log_def calm_def split: phase.split slot_update.split)
next
  case True
  show ?thesis
  proof (cases "phase st")
    case (SendConnectError err)
    with assms True show ?thesis
      by (auto simp: finish_send_def send_update_open split: if_splits
          intro!: channel_inv_push [OF assms(2), where u = "connect_error err"])
  next
    case (SendSubscribeError err)
    with assms True show ?thesis
      by (auto simp: finish_send_def send_update_open split: if_splits
          intro!: channel_inv_push [OF assms(2), where u = "subscribe_error err"])
  next
    case (SendSlot info)
    with assms True show ?thesis
      by (auto simp: finish_send_def send_update_open announces_def split: if_splits
          intro!: channel_inv_push [OF assms(2), where u = "NewSlot info"])
  next
    case (SendUpdate u)
    with assms(2) True have "\<And>b. u = NewBlock b \<Longrightarrow> announces (blk_slot b) (log st)"
      by (auto simp: channel_inv_def in_flight_ok_def)
    with SendUpdate assms True show ?thesis
      by (auto simp: finish_send_def send_update_open split: if_splits
          intro!: channel_inv_push [OF assms(2), where u = u])
  qed (use assms(1) in \<open>simp_all add: finish_send_def\<close>)
qed

lemma fetch_channel_inv:
  assumes "phase st = FetchBlock slot" and "channel_inv st"
  shows "channel_inv (fetch E slot st)"
proof -
  obtain r s' where g: "get_block (env_profile E) (env_sdk E) (env_api E) (env_client E) slot (shared st) = (r, s')"
    by fastforce
  consider e where "r = Inl e" | err where "r = Inr (Inl err)" | b where "r = Inr (Inr b)"
    by (cases r rule: sum.exhaust) (metis sum.exhaust)+
  then show ?thesis
  proof cases
    case 3
    then have "blk_slot b = slot" using g get_block_slot by blast
    with 3 assms g show ?thesis
      by (auto simp: fetch_def channel_inv_def in_flight_ok_def log_def)
  qed (use assms g in \<open>auto intro!: channel_inv_calm [OF assms(2)] simp: fetch_def\<close>)
qed

lemma react_channel_inv:
  assumes "react E ev st = Some st'" and "channel_inv st"
  shows "channel_inv st'"
proof (cases ev)
  case Sent
  with assms show ?thesis by (auto intro: finish_send_channel_inv)
next
  case Fetched
  with assms show ?thesis by (auto intro: fetch_channel_inv split: phase.splits)
next
  case Recv
  with assms(1) have "log st' = log st" "rx_open st'" "rx_open st" "phase st' = phase st"
      "length (queue st') \<le> length (queue st)"
    by (auto simp: log_def split: list.splits if_splits)
  moreover from this have "in_flight_ok st' = in_flight_ok st" by (intro in_flight_cong) simp_all
  ultimately show ?thesis using assms(2) by (simp add: channel_inv_def)
next
  case DropRx
  with assms show ?thesis
    by (auto simp: channel_inv_def log_def in_flight_ok_def dest: blocks_announced_prefix)
next
  case Cancel
  with assms(1) have "in_flight_ok st' = in_flight_ok st"
    by (intro in_flight_cong) (auto simp: log_def)
  with Cancel assms show ?thesis by (auto simp: channel_inv_def log_def)
next
  case UnsubscribeAll
  with assms(1) have "in_flight_ok st' = in_flight_ok st"
    by (intro in_flight_cong) (auto simp: log_def)
  with UnsubscribeAll assms show ?thesis by (auto simp: channel_inv_def log_def)
qed (use assms in \<open>auto intro!: channel_inv_calm [OF assms(2)] split: if_splits sum.splits option.splits\<close>)

lemma reachable_channel_inv: "reachable E s0 st \<Longrightarrow> channel_inv st"
proof (induction rule: reachable.induct)
  case start
  show ?case by (simp add: channel_inv_def in_flight_ok_def log_def subscribe_slots_def)
next
  case (step st ev st')
  then show ?case by (blast intro: react_channel_inv)
qed

subsection \<open>The cursor stays in range; the only panics are overflows\<close>

definition env_ok :: "('c, 'w) sub_env \<Rightarrow> bool" where
  "env_ok E \<longleftrightarrow> ws_endpoints (env_client E) \<noteq> [] \<and> api_ok (env_api E) (sc_client (env_client E))"

text \<open>The one panic of the body: the totals of a block an endpoint gave, in a build with overflow checks.\<close>

definition overflow_crash :: "('c, 'w) sub_env \<Rightarrow> panic \<Rightarrow> bool" where
  "overflow_crash E e \<longleftrightarrow> e = ArithmeticOverflow \<and> env_profile E = Debug \<and>
     (\<exists>slot b. gave_block (env_api E) (env_client E) slot b \<and> totals_overflow b)"

definition cursor_inv :: "('c, 'w) sub_env \<Rightarrow> 'w sub_state \<Rightarrow> bool" where
  "cursor_inv E st \<longleftrightarrow>
     cursor_ok (env_profile E, ws_endpoints (env_client E)) (current_endpoint st, reconnect_delay st) \<and>
     (\<forall>d \<in> set (slept st). 2 \<le> unat d \<and> unat d \<le> 60) \<and>
     sys_ok (sc_client (env_client E)) (shared st) \<and>
     (\<forall>e. phase st = Crashed e \<longrightarrow> overflow_crash E e)"

lemma reconnect_cursor_inv:
  assumes "cursor_inv E st"
  shows "cursor_inv E (reconnect E st)"
proof -
  let ?c = "(env_profile E, ws_endpoints (env_client E))"
  have ok: "cursor_ok ?c (current_endpoint st, reconnect_delay st)" using assms by (simp add: cursor_inv_def)
  then obtain i d where r: "reconnect E st =
      st\<lparr>phase := Sleeping, current_endpoint := i, reconnect_delay := d, slept := slept st @ [d]\<rparr>"
    "(i, d) = reconnect_step ?c (current_endpoint st, reconnect_delay st)" "cursor_ok ?c (i, d)"
    using reconnect_cursor by blast
  have "unat d = min 60 (2 * unat (reconnect_delay st))"
    using reconnect_step_ok(2) [OF ok] r(2) by (metis snd_conv)
  then have "2 \<le> unat d \<and> unat d \<le> 60" using ok by (simp add: cursor_ok_def)
  with assms r(1,3) show ?thesis by (simp add: cursor_inv_def)
qed

lemma fetch_cursor_inv:
  assumes "env_ok E" and "cursor_inv E st"
  shows "cursor_inv E (fetch E slot st)"
proof -
  have ok: "sys_ok (sc_client (env_client E)) (shared st)" "api_ok (env_api E) (sc_client (env_client E))"
    using assms by (simp_all add: cursor_inv_def env_ok_def)
  obtain r s' where g: "get_block (env_profile E) (env_sdk E) (env_api E) (env_client E) slot (shared st) = (r, s')"
      "sys_ok (sc_client (env_client E)) s'" "\<And>e. r = Inl e \<Longrightarrow> overflow_crash E e"
    using get_block_crash [OF ok, of "env_profile E" "env_sdk E" slot] by (auto simp: overflow_crash_def)
  consider e where "r = Inl e" | err where "r = Inr (Inl err)" | b where "r = Inr (Inr b)"
    by (cases r rule: sum.exhaust) (metis sum.exhaust)+
  then show ?thesis
    by cases (use g assms(2) in \<open>simp_all add: fetch_def cursor_inv_def\<close>)
qed

lemma finish_send_cursor_inv:
  assumes "finish_send E st = Some st'" and "cursor_inv E st"
  shows "cursor_inv E st'"
proof -
  have push: "cursor_inv E (st\<lparr>queue := q\<rparr>)" for q
    using assms(2) by (simp add: cursor_inv_def)
  have again: "cursor_inv E (reconnect E (st\<lparr>queue := q\<rparr>))" for q
    by (rule reconnect_cursor_inv) (rule push)
  have move: "cursor_inv E (st\<lparr>phase := ph\<rparr>)" "cursor_inv E (st\<lparr>queue := q, phase := ph\<rparr>)"
      "cursor_inv E ((cleanup E st)\<lparr>phase := ph\<rparr>)" if "\<And>e. ph \<noteq> Crashed e" for ph q
    using assms(2) that by (simp_all add: cursor_inv_def sys_ok_def)
  show ?thesis
  proof (cases "rx_open st")
    case True
    with assms(1) show ?thesis
      by (auto simp: finish_send_open again intro!: move split: phase.splits if_splits)
  next
    case False
    with assms(1) show ?thesis
      by (auto simp: finish_send_closed intro!: move split: phase.splits if_splits)
  qed
qed

lemma react_cursor_inv:
  assumes "env_ok E" and "react E ev st = Some st'" and "cursor_inv E st"
  shows "cursor_inv E st'"
proof (cases ev)
  case (Notify n)
  with assms show ?thesis
    by (cases n) (auto simp: reconnect_cursor_inv split: if_splits, auto simp: cursor_inv_def)
next
  case Sent
  with assms show ?thesis by (auto intro: finish_send_cursor_inv)
next
  case Fetched
  with assms show ?thesis by (auto intro: fetch_cursor_inv split: phase.splits)
qed (use assms in \<open>auto simp: cursor_inv_def cursor_ok_def sys_ok_def unsubscribe_all_def
        split: if_splits sum.splits list.splits\<close>)

lemma reachable_cursor_inv:
  assumes "env_ok E" and "sys_ok (sc_client (env_client E)) s0" and "reachable E s0 st"
  shows "cursor_inv E st"
  using assms(3)
proof (induction rule: reachable.induct)
  case start
  show ?case using assms(1,2)
    by (auto simp: cursor_inv_def cursor_ok_def subscribe_slots_def env_ok_def sys_ok_def)
next
  case (step st ev st')
  then show ?case by (blast intro: react_cursor_inv [OF assms(1)])
qed

subsection \<open>Every block comes from an endpoint\<close>

definition given_block :: "('c, 'w) sub_env \<Rightarrow> block \<Rightarrow> bool" where
  "given_block E b \<longleftrightarrow>
     (\<exists>slot ui ts. gave_block (env_api E) (env_client E) slot ui \<and> gave_time (env_api E) (env_client E) slot ts \<and>
        block_made_of (env_sdk E) slot ui ts b)"

definition given_inv :: "('c, 'w) sub_env \<Rightarrow> 'w sub_state \<Rightarrow> bool" where
  "given_inv E st \<longleftrightarrow>
     (\<forall>b. NewBlock b \<in> set (log st) \<or> phase st = SendUpdate (NewBlock b) \<longrightarrow> given_block E b)"

lemma get_block_given:
  assumes "sys_ok (sc_client (env_client E)) s" and "api_ok (env_api E) (sc_client (env_client E))"
    and "get_block (env_profile E) (env_sdk E) (env_api E) (env_client E) slot s = (Inr (Inr b), s')"
  shows "given_block E b"
  using get_block_answer [OF assms(1,2), of "env_profile E" "env_sdk E" slot] assms(3)
  by (auto simp: given_block_def)

lemma given_inv_calm:
  assumes "given_inv E st" and "set (log st') \<subseteq> set (log st)" and "calm (phase st') \<or> phase st' = phase st"
  shows "given_inv E st'"
  using assms by (auto simp: given_inv_def calm_def)

lemma finish_send_given_inv:
  assumes "finish_send E st = Some st'" and "given_inv E st"
  shows "given_inv E st'"
proof (cases "rx_open st")
  case False
  with assms(1) have "log st' = log st" "\<And>b. phase st' \<noteq> SendUpdate (NewBlock b)"
    by (auto simp: finish_send_closed log_def split: phase.splits if_splits)
  with assms(2) show ?thesis by (simp add: given_inv_def)
next
  case True
  have "\<And>b. phase (reconnect E t) \<noteq> SendUpdate (NewBlock b)" for t
    using reconnect_phase [of E t] by auto
  with True assms show ?thesis
    by (auto simp: finish_send_open given_inv_def log_def error_not_block [symmetric]
        split: phase.splits if_splits)
qed

lemma react_given_inv:
  assumes "env_ok E" and "sys_ok (sc_client (env_client E)) (shared st)"
    and "react E ev st = Some st'" and "given_inv E st"
  shows "given_inv E st'"
proof (cases ev)
  case Sent
  with assms show ?thesis by (auto intro: finish_send_given_inv)
next
  case Fetched
  with assms(3) obtain slot where st': "st' = fetch E slot st" by (auto split: phase.splits)
  obtain r s' where g: "get_block (env_profile E) (env_sdk E) (env_api E) (env_client E) slot (shared st) = (r, s')"
    by fastforce
  have "given_block E b" if "r = Inr (Inr b)" for b
    using get_block_given [OF assms(2)] assms(1) g that by (auto simp: env_ok_def)
  moreover have "log st' = log st" by (simp add: st' log_def)
  moreover have "r = Inr (Inr b)" if "phase st' = SendUpdate (NewBlock b)" for b
    using that g by (auto simp: st' fetch_def split: sum.splits)
  ultimately show ?thesis using assms(4) by (auto simp: given_inv_def)
qed (use assms in \<open>auto intro!: given_inv_calm [OF assms(4)] simp: log_def split: if_splits sum.splits option.splits list.splits\<close>)

lemma reachable_given_inv:
  assumes "env_ok E" and "sys_ok (sc_client (env_client E)) s0" and "reachable E s0 st"
  shows "given_inv E st"
  using assms(3)
proof (induction rule: reachable.induct)
  case start
  show ?case by (simp add: given_inv_def log_def subscribe_slots_def)
next
  case (step st ev st')
  have "sys_ok (sc_client (env_client E)) (shared st)"
    using reachable_cursor_inv [OF assms(1,2) step.hyps(1)] by (simp add: cursor_inv_def)
  with step show ?case by (blast intro: react_given_inv [OF assms(1)])
qed

subsection \<open>Which exits unregister the subscription\<close>

definition unregistered_inv :: "('c, 'w) sub_env \<Rightarrow> 'w sub_state \<Rightarrow> bool" where
  "unregistered_inv E st \<longleftrightarrow>
     (phase st \<in> {Finished SubscribeExit, Finished ShutdownExit} \<longrightarrow>
        env_id E \<notin> active_subscriptions (shared st))"

lemma react_unregistered_inv:
  assumes "react E ev st = Some st'" and "unregistered_inv E st"
  shows "unregistered_inv E st'"
proof (cases ev)
  case (Notify n)
  with assms show ?thesis using reconnect_phase [of E st]
    by (auto simp: unregistered_inv_def split: if_splits option.splits)
next
  case Sent
  have "phase (reconnect E t) \<notin> {Finished SubscribeExit, Finished ShutdownExit}" for t
    using reconnect_phase [of E t] by auto
  with Sent assms show ?thesis
    by (cases "rx_open st")
       (auto simp: finish_send_open finish_send_closed unregistered_inv_def split: phase.splits if_splits)
next
  case Fetched
  with assms show ?thesis
    by (auto simp: unregistered_inv_def fetch_def split: phase.splits prod.splits sum.splits)
qed (use assms in \<open>auto simp: unregistered_inv_def unsubscribe_all_def
        split: if_splits sum.splits list.splits\<close>)

lemma reachable_unregistered_inv: "reachable E s0 st \<Longrightarrow> unregistered_inv E st"
proof (induction rule: reachable.induct)
  case start
  show ?case by (simp add: unregistered_inv_def subscribe_slots_def)
next
  case (step st ev st')
  then show ?case by (blast intro: react_unregistered_inv)
qed

subsection \<open>Stopping\<close>

text \<open>
  Once the subscription is dropped (cancelled, receiver gone) no send waits any more. Each own
  step of the task other than a notification then lowers a rank, and a notification raises it by
  three at most, so the task ends unless the node keeps notifying it.
\<close>

primrec rank :: "phase \<Rightarrow> nat" where
  "rank Sleeping = 4"
| "rank Connecting = 3"
| "rank (SendConnectError _) = 1"
| "rank Subscribing = 2"
| "rank (SendSubscribeError _) = 1"
| "rank Streaming = 1"
| "rank (SendSlot _) = 4"
| "rank (FetchBlock _) = 3"
| "rank (SendUpdate _) = 2"
| "rank (Finished _) = 0"
| "rank (Crashed _) = 0"

fun own_event :: "event \<Rightarrow> bool" where
  "own_event PickEndpoint = True"
| "own_event (Connect _) = True"
| "own_event (Subscribe _) = True"
| "own_event (Notify _) = True"
| "own_event Shutdown = True"
| "own_event Sent = True"
| "own_event Fetched = True"
| "own_event Wake = True"
| "own_event _ = False"

fun is_notify :: "event \<Rightarrow> bool" where
  "is_notify (Notify _) = True"
| "is_notify _ = False"

definition dropped :: "'w sub_state \<Rightarrow> bool" where
  "dropped st \<longleftrightarrow> cancelled st \<and> \<not> rx_open st"

lemma rank_reconnect: "rank (phase (reconnect E st)) \<le> 4"
  using reconnect_phase [of E st] by auto

lemma rank_fetch: "rank (phase (fetch E slot st)) \<le> 2"
  by (simp add: fetch_def split: prod.split sum.split)

lemma react_dropped: "react E ev st = Some st' \<Longrightarrow> dropped st \<Longrightarrow> dropped st'"
  by (cases ev) (auto simp: dropped_def finish_send_closed
      split: if_splits sum.splits option.splits list.splits phase.splits)

lemma react_rank:
  assumes "react E ev st = Some st'" and "dropped st" and "own_event ev"
  shows "Suc (rank (phase st')) \<le> rank (phase st) + (if is_notify ev then 4 else 0)"
proof (cases ev)
  case (Notify n)
  with assms(1) show ?thesis using rank_reconnect [of E st]
    by (auto split: if_splits option.splits)
next
  case Fetched
  with assms(1) show ?thesis using rank_fetch [of E]
    by (auto split: phase.splits)
qed (use assms in \<open>auto simp: dropped_def finish_send_closed split: if_splits sum.splits phase.splits\<close>)

lemma run_rank:
  assumes "run E evs st = Some st'" and "dropped st" and "list_all own_event evs"
  shows "length evs + rank (phase st') \<le> rank (phase st) + 4 * length (filter is_notify evs)"
  using assms
proof (induction evs arbitrary: st)
  case Nil
  then show ?case by simp
next
  case (Cons ev evs)
  then obtain t where t: "react E ev st = Some t" "run E evs t = Some st'"
    by (auto split: bind_splits)
  with Cons have "length evs + rank (phase st') \<le> rank (phase t) + 4 * length (filter is_notify evs)"
    by (auto intro: react_dropped)
  moreover have "Suc (rank (phase t)) \<le> rank (phase st) + (if is_notify ev then 4 else 0)"
    using react_rank [OF t(1)] Cons.prems by simp
  ultimately show ?case by (auto split: if_splits)
qed

lemma rank_0_iff: "rank ph = 0 \<longleftrightarrow> (\<exists>x. ph = Finished x) \<or> (\<exists>e. ph = Crashed e)"
  by (cases ph) simp_all

lemma run_dropped: "run E evs st = Some st' \<Longrightarrow> dropped st \<Longrightarrow> dropped st'"
  by (induction evs arbitrary: st) (auto split: bind_splits dest: react_dropped)

lemma rank_le: "rank ph \<le> 4"
  by (cases ph) simp_all

lemma connecting_progress:
  assumes "phase st = Connecting"
  shows "\<exists>ev st'. own_event ev \<and> \<not> is_notify ev \<and> react E ev st = Some st'"
proof (cases "length (ws_endpoints (env_client E)) \<le> current_endpoint st")
  case True
  with assms show ?thesis by (intro exI [of _ PickEndpoint]) simp
next
  case False
  with assms show ?thesis by (intro exI [of _ "Connect (Inr ())"]) simp
qed

text \<open>A dropped task that has not ended can always take a step of its own, and not a notification.\<close>

lemma dropped_progress:
  assumes "dropped st" and "rank (phase st) \<noteq> 0"
  shows "\<exists>ev st'. own_event ev \<and> \<not> is_notify ev \<and> react E ev st = Some st'"
proof (cases "phase st")
  case Connecting
  then show ?thesis by (rule connecting_progress)
next
  case Subscribing
  then show ?thesis by (intro exI [of _ "Subscribe (Inr ())"]) simp
next
  case Streaming
  with assms show ?thesis by (intro exI [of _ Shutdown]) (simp add: dropped_def)
next
  case Sleeping
  then show ?thesis by (intro exI [of _ Wake]) simp
next
  case (FetchBlock slot)
  then show ?thesis by (intro exI [of _ Fetched]) simp
qed (use assms in \<open>auto simp: dropped_def finish_send_closed intro!: exI [of _ Sent]\<close>)

subsection \<open>Where the registration leaks\<close>

lemma connect_exit_leak:
  assumes "ws_endpoints (env_client E) \<noteq> []"
  shows "\<exists>st. run E ([Connect (Inl err)] @ drop_subscription @ [Sent]) (subscribe_slots E s) = Some st \<and>
    phase st = Finished ConnectExit \<and> env_id E \<in> active_subscriptions (shared st)"
  using assms by (auto simp: drop_subscription_def subscribe_slots_def finish_send_closed)

lemma no_endpoint_crash:
  "ws_endpoints (env_client E) = [] \<Longrightarrow>
   \<exists>st. run E [PickEndpoint] (subscribe_slots E s) = Some st \<and>
     phase st = Crashed IndexOutOfBounds \<and> env_id E \<in> active_subscriptions (shared st) \<and>
     (\<forall>ev st'. own_event ev \<longrightarrow> react E ev (subscribe_slots E s) = Some st' \<longrightarrow> st' = st)"
  by (auto simp: subscribe_slots_def finish_send_def elim!: own_event.elims)

text \<open>\<open>unsubscribe_all\<close> forgets the subscriptions and stops none: the task goes on as before.\<close>

lemma unsubscribed_goes_on:
  assumes "phase st = Streaming" and "rx_open st" and "length (queue st) < CHANNEL_CAPACITY"
  shows "\<exists>st'. run E [UnsubscribeAll, Notify (Some info), Sent] st = Some st' \<and>
    queue st' = queue st @ [NewSlot info] \<and> env_id E \<notin> active_subscriptions (shared st')"
  using assms by (simp add: finish_send_open unsubscribe_all_def)

subsection \<open>Without a rooted notification no block is fetched\<close>

fun is_block :: "slot_update \<Rightarrow> bool" where
  "is_block (NewBlock _) = True"
| "is_block _ = False"

fun unrooted :: "event \<Rightarrow> bool" where
  "unrooted (Notify (Some info)) = (info_root info \<noteq> info_slot info)"
| "unrooted _ = True"

primrec quiet :: "phase \<Rightarrow> bool" where
  "quiet Connecting = True"
| "quiet (SendConnectError _) = True"
| "quiet Subscribing = True"
| "quiet (SendSubscribeError _) = True"
| "quiet Streaming = True"
| "quiet (SendSlot info) = (info_root info \<noteq> info_slot info)"
| "quiet (FetchBlock _) = False"
| "quiet (SendUpdate _) = False"
| "quiet Sleeping = True"
| "quiet (Finished _) = True"
| "quiet (Crashed _) = True"

definition no_block_inv :: "'w sub_state \<Rightarrow> bool" where
  "no_block_inv st \<longleftrightarrow> quiet (phase st) \<and> list_all (\<lambda>u. \<not> is_block u) (log st)"

lemma quiet_reconnect: "quiet (phase (reconnect E st))"
  using reconnect_phase [of E st] by auto

lemma react_no_block_inv:
  assumes "react E ev st = Some st'" and "unrooted ev" and "no_block_inv st"
  shows "no_block_inv st'"
proof (cases ev)
  case (Notify n)
  with assms show ?thesis
    by (cases n) (auto simp: no_block_inv_def log_def quiet_reconnect split: if_splits)
next
  case Sent
  have errs: "\<not> is_block (connect_error err)" "\<not> is_block (subscribe_error err)" for err
    by (simp_all add: connect_error_def subscribe_error_def)
  from Sent assms show ?thesis
    by (cases "rx_open st")
       (auto simp: finish_send_open finish_send_closed no_block_inv_def log_def quiet_reconnect errs
         split: phase.splits if_splits)
next
  case Fetched
  with assms show ?thesis by (auto simp: no_block_inv_def split: phase.splits)
qed (use assms in \<open>auto simp: no_block_inv_def log_def
        split: if_splits sum.splits list.splits\<close>)

lemma run_no_block_inv:
  "run E evs st = Some st' \<Longrightarrow> list_all unrooted evs \<Longrightarrow> no_block_inv st \<Longrightarrow> no_block_inv st'"
  by (induction evs arbitrary: st) (auto split: bind_splits dest: react_no_block_inv)

lemma start_no_block_inv: "no_block_inv (subscribe_slots E s)"
  by (simp add: no_block_inv_def log_def subscribe_slots_def)

subsection \<open>A node that works and notifies no root\<close>

text \<open>
  The events of a node whose connections succeed and whose notifications are never their own root,
  while the subscription is neither cancelled nor dropped.
\<close>

fun undisturbed :: "event \<Rightarrow> bool" where
  "undisturbed PickEndpoint = True"
| "undisturbed (Connect r) = (r = Inr ())"
| "undisturbed (Subscribe r) = (r = Inr ())"
| "undisturbed (Notify (Some info)) = (info_root info \<noteq> info_slot info)"
| "undisturbed (Notify None) = True"
| "undisturbed Sent = True"
| "undisturbed Recv = True"
| "undisturbed Wake = True"
| "undisturbed _ = False"

fun is_slot :: "slot_update \<Rightarrow> bool" where
  "is_slot (NewSlot _) = True"
| "is_slot _ = False"

primrec running :: "phase \<Rightarrow> bool" where
  "running Connecting = True"
| "running (SendConnectError _) = False"
| "running Subscribing = True"
| "running (SendSubscribeError _) = False"
| "running Streaming = True"
| "running (SendSlot info) = (info_root info \<noteq> info_slot info)"
| "running (FetchBlock _) = False"
| "running (SendUpdate _) = False"
| "running Sleeping = True"
| "running (Finished _) = False"
| "running (Crashed _) = False"

definition slots_only_inv :: "('c, 'w) sub_env \<Rightarrow> 'w sub_state \<Rightarrow> bool" where
  "slots_only_inv E st \<longleftrightarrow>
     running (phase st) \<and> rx_open st \<and> list_all is_slot (log st) \<and>
     env_id E \<in> active_subscriptions (shared st) \<and>
     cursor_ok (env_profile E, ws_endpoints (env_client E)) (current_endpoint st, reconnect_delay st)"

lemma reconnect_slots_only: "slots_only_inv E st \<Longrightarrow> slots_only_inv E (reconnect E st)"
  using reconnect_cursor [of E st] by (auto simp: slots_only_inv_def log_def)

lemma react_slots_only_inv:
  assumes "react E ev st = Some st'" and "undisturbed ev" and "slots_only_inv E st"
  shows "slots_only_inv E st'"
proof (cases ev)
  case (Notify n)
  with assms show ?thesis
    by (cases n) (auto simp: reconnect_slots_only split: if_splits, simp add: slots_only_inv_def log_def)
next
  case Sent
  with assms have "finish_send E st = Some st'" "rx_open st" by (simp_all add: slots_only_inv_def)
  with assms(3) show ?thesis
    by (auto simp: finish_send_open slots_only_inv_def log_def split: phase.splits if_splits)
qed (use assms in \<open>auto simp: slots_only_inv_def log_def cursor_ok_def
        split: if_splits sum.splits list.splits\<close>)

lemma run_slots_only_inv:
  "run E evs st = Some st' \<Longrightarrow> list_all undisturbed evs \<Longrightarrow> slots_only_inv E st \<Longrightarrow> slots_only_inv E st'"
  by (induction evs arbitrary: st) (auto split: bind_splits dest: react_slots_only_inv)

lemma start_slots_only_inv: "ws_endpoints (env_client E) \<noteq> [] \<Longrightarrow> slots_only_inv E (subscribe_slots E s)"
  by (simp add: slots_only_inv_def log_def subscribe_slots_def cursor_ok_def)

subsection \<open>Rounds of failed connections\<close>

lemma run_append: "run E (xs @ ys) st = Option.bind (run E xs st) (run E ys)"
  by (induction xs arbitrary: st) (auto split: bind_splits)

text \<open>One failed attempt: the error is sent and received, the task sleeps and wakes up.\<close>

definition failed_round :: "string \<Rightarrow> event list" where
  "failed_round err = [Connect (Inl err), Sent, Recv, Wake]"

definition trying :: "('c, 'w) sub_env \<Rightarrow> 'w sub_state \<Rightarrow> bool" where
  "trying E st \<longleftrightarrow> phase st = Connecting \<and> queue st = [] \<and> rx_open st \<and>
     cursor_ok (env_profile E, ws_endpoints (env_client E)) (current_endpoint st, reconnect_delay st)"

lemma failed_round_step:
  assumes "trying E st"
  shows "\<exists>st'. run E (failed_round err) st = Some st' \<and> trying E st' \<and>
    (current_endpoint st', reconnect_delay st') =
      reconnect_step (env_profile E, ws_endpoints (env_client E)) (current_endpoint st, reconnect_delay st) \<and>
    slept st' = slept st @ [reconnect_delay st'] \<and> received st' = received st @ [connect_error err]"
proof -
  let ?mid = "st\<lparr>phase := SendConnectError err, queue := [connect_error err]\<rparr>"
  have "cursor_ok (env_profile E, ws_endpoints (env_client E)) (current_endpoint ?mid, reconnect_delay ?mid)"
    using assms by (simp add: trying_def)
  from reconnect_cursor [OF this] obtain i d where r: "reconnect E ?mid =
      ?mid\<lparr>phase := Sleeping, current_endpoint := i, reconnect_delay := d, slept := slept st @ [d]\<rparr>"
    "(i, d) = reconnect_step (env_profile E, ws_endpoints (env_client E)) (current_endpoint st, reconnect_delay st)"
    "cursor_ok (env_profile E, ws_endpoints (env_client E)) (i, d)" by auto
  have "\<not> length (ws_endpoints (env_client E)) \<le> current_endpoint st"
    using assms by (simp add: trying_def cursor_ok_def)
  then have "run E [Connect (Inl err), Sent] st = Some (reconnect E ?mid)"
    using assms by (simp add: trying_def finish_send_open CHANNEL_CAPACITY_def)
  then have "run E (failed_round err) st = run E [Recv, Wake] (reconnect E ?mid)"
    using run_append [of E "[Connect (Inl err), Sent]" "[Recv, Wake]" st] by (simp add: failed_round_def)
  with r assms show ?thesis by (simp add: trying_def)
qed

lemma failed_rounds:
  assumes "trying E st"
  shows "\<exists>st'. run E (concat (replicate k (failed_round err))) st = Some st' \<and> trying E st' \<and>
    (current_endpoint st', reconnect_delay st') =
      (reconnect_step (env_profile E, ws_endpoints (env_client E)) ^^ k) (current_endpoint st, reconnect_delay st) \<and>
    slept st' = slept st @ map (\<lambda>j. snd ((reconnect_step (env_profile E, ws_endpoints (env_client E)) ^^ Suc j)
      (current_endpoint st, reconnect_delay st))) [0..<k] \<and>
    received st' = received st @ replicate k (connect_error err)"
proof (induction k)
  case 0
  with assms show ?case by simp
next
  case (Suc k)
  let ?step = "reconnect_step (env_profile E, ws_endpoints (env_client E))"
  let ?c = "(current_endpoint st, reconnect_delay st)"
  obtain t where t: "run E (concat (replicate k (failed_round err))) st = Some t" "trying E t"
      "(current_endpoint t, reconnect_delay t) = (?step ^^ k) ?c"
      "slept t = slept st @ map (\<lambda>j. snd ((?step ^^ Suc j) ?c)) [0..<k]"
      "received t = received st @ replicate k (connect_error err)"
    using Suc by blast
  obtain u where u: "run E (failed_round err) t = Some u" "trying E u"
      "(current_endpoint u, reconnect_delay u) = ?step (current_endpoint t, reconnect_delay t)"
      "slept u = slept t @ [reconnect_delay u]" "received u = received t @ [connect_error err]"
    using failed_round_step [OF t(2)] by blast
  have "concat (replicate (Suc k) (failed_round err)) = concat (replicate k (failed_round err)) @ failed_round err"
    by (simp flip: replicate_append_same)
  then have "run E (concat (replicate (Suc k) (failed_round err))) st = Some u"
    using t(1) u(1) by (simp add: run_append)
  moreover have c: "(current_endpoint u, reconnect_delay u) = (?step ^^ Suc k) ?c" using t(3) u(3) by simp
  moreover have "reconnect_delay u = snd ((?step ^^ Suc k) ?c)" using c by (metis snd_conv)
  ultimately show ?case using t u(2,4,5) by (simp add: replicate_append_same)
qed

subsection \<open>Properties\<close>

text \<open>A subscription on the demonstration node, and one without endpoints.\<close>

definition demo_env :: "(nat, unit) sub_env" where
  "demo_env = \<lparr>env_profile = Debug, env_sdk = demo_sdk, env_api = demo_api, env_client = demo_client,
     env_id = ''slot-1''\<rparr>"

definition idle_env :: "(nat, unit) sub_env" where
  "idle_env = demo_env\<lparr>env_client := demo_client\<lparr>ws_endpoints := []\<rparr>\<rparr>"

lemma demo_env_simps [simp]:
  "env_profile demo_env = Debug" "env_sdk demo_env = demo_sdk" "env_api demo_env = demo_api"
  "env_client demo_env = demo_client" "env_id demo_env = ''slot-1''"
  "env_id idle_env = ''slot-1''" "ws_endpoints (env_client idle_env) = []"
  by (simp_all add: demo_env_def idle_env_def)

lemma demo_env_ok [simp]: "env_ok demo_env"
  by (simp add: env_ok_def)

definition demo_slot :: slot_info where
  "demo_slot = \<lparr>info_slot = 42, info_parent = 41, info_root = 42\<rparr>"

definition demo_stream :: "event list" where
  "demo_stream = [Connect (Inr ()), Subscribe (Inr ()), Notify (Some demo_slot), Sent, Fetched]"

lemma demo_stream_runs: "\<exists>st. run demo_env demo_stream (subscribe_slots demo_env s) = Some st"
  by (simp add: demo_stream_def demo_slot_def subscribe_slots_def finish_send_open CHANNEL_CAPACITY_def)

text \<open>C17: However the environment behaves, the channel never holds more than its 100 updates, and among
  the updates the subscriber received or still can, every \<open>NewBlock\<close> comes right after the
  \<open>NewSlot\<close> that announced its slot as the root.\<close>

theorem channel_bounded_blocks_announced:
  assumes "reachable E s0 st"
  shows "length (queue st) \<le> 100 \<and> blocks_announced (received st @ queue st)"
  using reachable_channel_inv [OF assms] by (simp add: channel_inv_def log_def CHANNEL_CAPACITY_def)

theorem channel_bounded_blocks_announced_witness:
  "\<exists>st. run demo_env demo_stream (subscribe_slots demo_env (demo_sys 1 ())) = Some st \<and>
     length (queue st) \<le> 100 \<and> blocks_announced (received st @ queue st)"
proof -
  obtain st where st: "run demo_env demo_stream (subscribe_slots demo_env (demo_sys 1 ())) = Some st"
    using demo_stream_runs by blast
  from channel_bounded_blocks_announced [OF reachable_run [OF reachable.start st]] st show ?thesis by blast
qed

text \<open>C26: When \<open>k\<close> connection attempts in a row fail, the task sleeps min(60, 2), min(60, 4), ...,
  min(60, 2^k) seconds, has gone through the endpoints in order, round and round, and the subscriber
  has received one error for each.\<close>

theorem backoff_schedule:
  assumes "ws_endpoints (env_client E) \<noteq> []"
  shows "\<exists>st. run E (concat (replicate k (failed_round err))) (subscribe_slots E s) = Some st \<and>
    phase st = Connecting \<and> current_endpoint st = k mod length (ws_endpoints (env_client E)) \<and>
    map unat (slept st) = map (\<lambda>j. min 60 (2 ^ Suc j)) [0..<k] \<and>
    received st = replicate k (connect_error err)"
proof -
  let ?c = "(env_profile E, ws_endpoints (env_client E))"
  have ok: "cursor_ok ?c (0, 1)" using assms by (simp add: cursor_ok_def)
  then have "trying E (subscribe_slots E s)" by (simp add: trying_def subscribe_slots_def)
  from failed_rounds [OF this, of k err] obtain st where st:
      "run E (concat (replicate k (failed_round err))) (subscribe_slots E s) = Some st" "trying E st"
      "(current_endpoint st, reconnect_delay st) = (reconnect_step ?c ^^ k) (0, 1)"
      "slept st = map (\<lambda>j. snd ((reconnect_step ?c ^^ Suc j) (0, 1))) [0..<k]"
      "received st = replicate k (connect_error err)"
    by (auto simp: subscribe_slots_def)
  have "fst ((reconnect_step ?c ^^ k) (0, 1)) = k mod length (ws_endpoints (env_client E))"
    using ws_ring.pos_steps [OF ok, of k] by simp
  moreover have "map unat (slept st) = map (\<lambda>j. min 60 (2 ^ Suc j)) [0..<k]"
    unfolding st(4) by (simp add: backoff_delay [OF ok] del: funpow.simps power_Suc)
  ultimately show ?thesis using st by (auto simp: trying_def dest: arg_cong [of _ _ fst])
qed

theorem backoff_schedule_witness:
  "\<exists>st. run demo_env (concat (replicate 7 (failed_round ''refused''))) (subscribe_slots demo_env (demo_sys 0 ())) =
     Some st \<and> current_endpoint st = 1 \<and> map unat (slept st) = [2, 4, 8, 16, 32, 60, 60]"
  using backoff_schedule [of demo_env 7 "''refused''" "demo_sys 0 ()"]
  by (auto simp: upt_rec simp flip: numeral_2_eq_2 simp del: run.simps)

text \<open>C36: A task that ended because it could not subscribe or because it was cancelled has removed its
  id from the set of active subscriptions.\<close>

theorem exits_unregister:
  assumes "reachable E s0 st" and "phase st = Finished SubscribeExit \<or> phase st = Finished ShutdownExit"
  shows "env_id E \<notin> active_subscriptions (shared st)"
  using reachable_unregistered_inv [OF assms(1)] assms(2) by (auto simp: unregistered_inv_def)

theorem exits_unregister_witness:
  "\<exists>st. run demo_env [Connect (Inr ()), Subscribe (Inr ()), Cancel, Shutdown]
       (subscribe_slots demo_env (demo_sys 1 ())) = Some st \<and> ''slot-1'' \<notin> active_subscriptions (shared st)"
proof -
  obtain st where st: "run demo_env [Connect (Inr ()), Subscribe (Inr ()), Cancel, Shutdown]
      (subscribe_slots demo_env (demo_sys 1 ())) = Some st" "phase st = Finished ShutdownExit"
    by (simp add: subscribe_slots_def)
  from exits_unregister [OF reachable_run [OF reachable.start st(1)]] st show ?thesis by simp
qed

text \<open>C37: The third way to end leaks the registration: when the subscription is dropped while the task
  reports a failed connection, the task returns with its id still in the active set.\<close>

theorem connect_exit_leaks_registration:
  assumes "ws_endpoints (env_client E) \<noteq> []"
  shows "\<exists>st. run E ([Connect (Inl err)] @ drop_subscription @ [Sent]) (subscribe_slots E s) = Some st \<and>
    phase st = Finished ConnectExit \<and> env_id E \<in> active_subscriptions (shared st)"
  by (rule connect_exit_leak [OF assms])

theorem connect_exit_leaks_registration_witness:
  "\<exists>st. run demo_env ([Connect (Inl ''refused'')] @ drop_subscription @ [Sent])
      (subscribe_slots demo_env (demo_sys 0 ())) = Some st \<and>
    ''slot-1'' \<in> active_subscriptions (shared st)"
  using connect_exit_leaks_registration [of demo_env "''refused''" "demo_sys 0 ()"]
  by (auto simp del: run.simps react.simps)

text \<open>C25: Once its subscription is dropped, the task makes at most four more steps for each notification
  the node still sends, and four more; and as long as it has not ended it can step without one.\<close>

theorem dropped_subscription_stops:
  assumes "dropped st" and "run E evs st = Some st'" and "list_all own_event evs"
  shows "length evs \<le> 4 + 4 * length (filter is_notify evs) \<and>
    ((\<exists>x. phase st' = Finished x) \<or> (\<exists>e. phase st' = Crashed e) \<or>
     (\<exists>ev st''. own_event ev \<and> \<not> is_notify ev \<and> react E ev st' = Some st''))"
proof -
  have "dropped st'" by (rule run_dropped [OF assms(2,1)])
  then have "rank (phase st') \<noteq> 0 \<Longrightarrow>
      \<exists>ev st''. own_event ev \<and> \<not> is_notify ev \<and> react E ev st' = Some st''"
    by (rule dropped_progress)
  moreover have "length evs \<le> 4 + 4 * length (filter is_notify evs)"
    using run_rank [OF assms(2,1,3)] rank_le [of "phase st"] by simp
  ultimately show ?thesis using rank_0_iff by blast
qed

theorem dropped_subscription_stops_witness:
  "\<exists>st. run demo_env [Connect (Inr ()), Subscribe (Inr ()), Cancel, DropRx] (subscribe_slots demo_env (demo_sys 1 ())) =
     Some st \<and> ((\<exists>x. phase st = Finished x) \<or> (\<exists>e. phase st = Crashed e) \<or>
     (\<exists>ev st''. own_event ev \<and> \<not> is_notify ev \<and> react demo_env ev st = Some st''))"
proof -
  obtain st where st: "run demo_env [Connect (Inr ()), Subscribe (Inr ()), Cancel, DropRx]
      (subscribe_slots demo_env (demo_sys 1 ())) = Some st" "dropped st"
    by (simp add: subscribe_slots_def dropped_def)
  from dropped_subscription_stops [OF st(2), of demo_env "[]" st] st(1) show ?thesis by simp
qed

end
