(* ===== verification/Service.thy ===== *)
theory Service
  imports Block_Conversion Slot_Subscription
begin

section \<open>The gRPC handlers\<close>

text \<open>
  \<open>service/mod.rs\<close>: \<open>get_block\<close>, \<open>get_block_range\<close> and \<open>subscribe_new_blocks\<close>. A streaming
  handler returns at once and a spawned task feeds the response channel. What the task sees of the
  channel is whether a send fails, which it does from the moment the consumer hangs up: the state
  records how many messages the consumer takes before that (\<open>None\<close> if it never hangs up).
\<close>

type_synonym stream_item = "status + block_data"

record response =
  delivered :: "stream_item list"
  hangs_up :: "nat option"

definition tx_send :: "stream_item \<Rightarrow> response \<Rightarrow> bool \<times> response" where
  "tx_send item tx =
     (case hangs_up tx of
        Some n \<Rightarrow> if n \<le> length (delivered tx) then (True, tx)
                  else (False, tx\<lparr>delivered := delivered tx @ [item]\<rparr>)
      | None \<Rightarrow> (False, tx\<lparr>delivered := delivered tx @ [item]\<rparr>))"

subsection \<open>get_block\<close>

definition get_block_handler ::
    "profile \<Rightarrow> sdk \<Rightarrow> ('c, 'w) rpc_api \<Rightarrow> 'c solana_client \<Rightarrow> get_block_request \<Rightarrow>
     ('w, (status + get_block_response) outcome) effect" where
  "get_block_handler p K api sc req s =
     (case get_block p K api sc (as_u64 (gb_slot req)) s of
        (Inl e, s') \<Rightarrow> (Inl e, s')
      | (Inr (Inl e), s') \<Rightarrow>
          (Inr (Inl (Status Internal (''Failed to fetch block: '' @ rpc_error_to_string e))), s')
      | (Inr (Inr b), s') \<Rightarrow>
          (case convert_block_data K b of
             Inl e \<Rightarrow> (Inl e, s')
           | Inr (Inl e) \<Rightarrow>
               (Inr (Inl (Status Internal (''Failed to convert block data: '' @ rpc_error_to_string e))), s')
           | Inr (Inr bd) \<Rightarrow> (Inr (Inr \<lparr>gb_block_data = Some bd\<rparr>), s')))"

subsection \<open>get_block_range\<close>

definition MAX_RANGE :: i64 where
  "MAX_RANGE = 1000"

definition range_check :: "profile \<Rightarrow> get_block_range_request \<Rightarrow> (status + unit) outcome" where
  "range_check p req =
     (if sint (gr_end_slot req) < sint (gr_start_slot req)
      then Inr (Inl (Status InvalidArgument ''start_slot must be less than or equal to end_slot''))
      else and_then (sub_i64 p (gr_end_slot req) (gr_start_slot req)) (\<lambda>d.
        if sint MAX_RANGE < sint d
        then Inr (Inl (Status InvalidArgument
          (''slot range too large, maximum is '' @ dec (nat (sint MAX_RANGE)))))
        else Inr (Inr ())))"

definition block_item :: "sdk \<Rightarrow> block rpc_result \<Rightarrow> stream_item outcome" where
  "block_item K r =
     (case r of
        Inl e \<Rightarrow> Inr (Inl (Status Internal (rpc_error_to_string e)))
      | Inr b \<Rightarrow>
          and_then (convert_block_data K b) (\<lambda>q.
            Inr (map_err (\<lambda>e. Status Internal (rpc_error_to_string e)) q)))"

fun stream_slots ::
    "profile \<Rightarrow> sdk \<Rightarrow> ('c, 'w) rpc_api \<Rightarrow> 'c solana_client \<Rightarrow> u64 list \<Rightarrow> 'w sys \<times> response \<Rightarrow>
     unit outcome \<times> 'w sys \<times> response" where
  "stream_slots p K api sc [] (s, tx) = (Inr (), s, tx)"
| "stream_slots p K api sc (slot # slots) (s, tx) =
     (case get_block p K api sc slot s of
        (Inl e, s') \<Rightarrow> (Inl e, s', tx)
      | (Inr r, s') \<Rightarrow>
          (case block_item K r of
             Inl e \<Rightarrow> (Inl e, s', tx)
           | Inr item \<Rightarrow>
               (case tx_send item tx of
                  (True, tx') \<Rightarrow> (Inr (), s', tx')
                | (False, tx') \<Rightarrow> stream_slots p K api sc slots (s', tx'))))"

definition range_task ::
    "profile \<Rightarrow> sdk \<Rightarrow> ('c, 'w) rpc_api \<Rightarrow> 'c solana_client \<Rightarrow> get_block_range_request \<Rightarrow>
     'w sys \<times> response \<Rightarrow> unit outcome \<times> 'w sys \<times> response" where
  "range_task p K api sc req = (\<lambda>(s, tx).
     (case get_blocks p api sc (as_u64 (gr_start_slot req)) (Some (as_u64 (gr_end_slot req))) s of
        (Inl e, s') \<Rightarrow> (Inl e, s', tx)
      | (Inr (Inl e), s') \<Rightarrow>
          (Inr (), s', snd (tx_send
            (Inl (Status Internal (''Failed to get block range: '' @ rpc_error_to_string e))) tx))
      | (Inr (Inr slots), s') \<Rightarrow> stream_slots p K api sc slots (s', tx)))"

text \<open>The handler: a rejection, or the task it spawns.\<close>

definition get_block_range_handler ::
    "profile \<Rightarrow> sdk \<Rightarrow> ('c, 'w) rpc_api \<Rightarrow> 'c solana_client \<Rightarrow> get_block_range_request \<Rightarrow>
     (status + ('w sys \<times> response \<Rightarrow> unit outcome \<times> 'w sys \<times> response)) outcome" where
  "get_block_range_handler p K api sc req =
     and_then (range_check p req) (\<lambda>r.
       (case r of Inl st \<Rightarrow> Inr (Inl st) | Inr _ \<Rightarrow> Inr (Inr (range_task p K api sc req))))"

subsection \<open>subscribe_new_blocks\<close>

text \<open>The loop of the task over the updates it receives, until the channel closes.\<close>

fun forward_updates ::
    "sdk \<Rightarrow> i64 \<Rightarrow> slot_update list \<Rightarrow> response \<Rightarrow> unit outcome \<times> response" where
  "forward_updates K start_slot [] tx = (Inr (), tx)"
| "forward_updates K start_slot (NewBlock b # us) tx =
     (if sint start_slot \<le> sint (as_i64 (blk_slot b)) then
        (case block_item K (Inr b) of
           Inl e \<Rightarrow> (Inl e, tx)
         | Inr item \<Rightarrow>
             (case tx_send item tx of
                (True, tx') \<Rightarrow> (Inr (), tx')
              | (False, tx') \<Rightarrow> forward_updates K start_slot us tx'))
      else forward_updates K start_slot us tx)"
| "forward_updates K start_slot (UpdateError e # us) tx =
     (case tx_send (Inl (Status Internal (rpc_error_to_string e))) tx of
        (True, tx') \<Rightarrow> (Inr (), tx')
      | (False, tx') \<Rightarrow> forward_updates K start_slot us tx')"
| "forward_updates K start_slot (NewSlot _ # us) tx = forward_updates K start_slot us tx"

definition subscribe_task ::
    "sdk \<Rightarrow> subscribe_new_blocks_request \<Rightarrow> slot_update list \<Rightarrow> response \<Rightarrow> unit outcome \<times> response" where
  "subscribe_task K req updates tx = forward_updates K (sn_start_slot req) updates tx"

subsection \<open>What a streaming task delivers\<close>

text \<open>
  Both loops meet one contract: per input they emit nothing or one item, or panic, and they stop at
  the first failed send. The contract is a locale over the state the loop threads; what it gives is
  that the consumer gets exactly the items emitted without a channel, up to its hang-up.
\<close>

primrec emissions ::
    "('i \<Rightarrow> 's \<Rightarrow> stream_item option outcome \<times> 's) \<Rightarrow> 'i list \<Rightarrow> 's \<Rightarrow> stream_item list \<times> unit outcome" where
  "emissions emit [] s = ([], Inr ())"
| "emissions emit (i # is) s =
     (case emit i s of
        (Inl e, s') \<Rightarrow> ([], Inl e)
      | (Inr None, s') \<Rightarrow> emissions emit is s'
      | (Inr (Some item), s') \<Rightarrow> (case emissions emit is s' of (items, r) \<Rightarrow> (item # items, r)))"

definition accepted :: "response \<Rightarrow> stream_item list \<Rightarrow> stream_item list" where
  "accepted tx items =
     delivered tx @
       (case hangs_up tx of Some n \<Rightarrow> take (n - length (delivered tx)) items | None \<Rightarrow> items)"

locale forwarder =
  fixes loop :: "'i list \<Rightarrow> 's \<times> response \<Rightarrow> unit outcome \<times> 's \<times> response"
    and emit :: "'i \<Rightarrow> 's \<Rightarrow> stream_item option outcome \<times> 's"
  assumes loop_Nil: "loop [] (s, tx) = (Inr (), s, tx)"
    and loop_Cons: "loop (i # is) (s, tx) =
      (case emit i s of
         (Inl e, s') \<Rightarrow> (Inl e, s', tx)
       | (Inr None, s') \<Rightarrow> loop is (s', tx)
       | (Inr (Some item), s') \<Rightarrow>
           (case tx_send item tx of
              (True, tx') \<Rightarrow> (Inr (), s', tx')
            | (False, tx') \<Rightarrow> loop is (s', tx')))"
begin

lemma loop_delivers:
  "loop is (s, tx) = (r, s', tx') \<Longrightarrow>
   delivered tx' = accepted tx (fst (emissions emit is s)) \<and> hangs_up tx' = hangs_up tx"
proof (induction "is" arbitrary: s tx)
  case Nil
  then show ?case by (auto simp: loop_Nil accepted_def split: option.split)
next
  case (Cons i "is")
  obtain q t where e: "emit i s = (q, t)" by fastforce
  consider err where "q = Inl err" | "q = Inr None" | item where "q = Inr (Some item)"
    by (metis option.exhaust sum.exhaust)
  then show ?case
  proof cases
    case 1
    with Cons.prems e show ?thesis by (auto simp: loop_Cons accepted_def split: option.split)
  next
    case 2
    with Cons e show ?thesis by (simp add: loop_Cons)
  next
    case 3
    show ?thesis
    proof (cases "\<exists>n. hangs_up tx = Some n \<and> n \<le> length (delivered tx)")
      case True
      with Cons.prems e 3 show ?thesis by (auto simp: loop_Cons tx_send_def accepted_def)
    next
      case False
      let ?tx = "tx\<lparr>delivered := delivered tx @ [item]\<rparr>"
      have "tx_send item tx = (False, ?tx)" using False by (auto simp: tx_send_def split: option.split)
      with Cons.prems e 3 have "loop is (t, ?tx) = (r, s', tx')" by (simp add: loop_Cons)
      from Cons.IH [OF this] False e 3 show ?thesis
        by (auto simp: accepted_def Suc_diff_le take_Cons' split: prod.split option.split)
    qed
  qed
qed

lemma loop_result:
  "hangs_up tx = None \<Longrightarrow> fst (loop is (s, tx)) = snd (emissions emit is s)"
proof (induction "is" arbitrary: s tx)
  case Nil
  then show ?case by (simp add: loop_Nil)
next
  case (Cons i "is")
  then show ?case
    by (auto simp: loop_Cons tx_send_def split: prod.split sum.split option.split)
qed

end

definition slot_emit ::
    "profile \<Rightarrow> sdk \<Rightarrow> ('c, 'w) rpc_api \<Rightarrow> 'c solana_client \<Rightarrow> u64 \<Rightarrow> 'w sys \<Rightarrow>
     stream_item option outcome \<times> 'w sys" where
  "slot_emit p K api sc slot s =
     (case get_block p K api sc slot s of
        (Inl e, s') \<Rightarrow> (Inl e, s')
      | (Inr r, s') \<Rightarrow> (and_then (block_item K r) (\<lambda>item. Inr (Some item)), s'))"

definition update_emit :: "sdk \<Rightarrow> i64 \<Rightarrow> slot_update \<Rightarrow> unit \<Rightarrow> stream_item option outcome \<times> unit" where
  "update_emit K start_slot u _ =
     ((case u of
         NewBlock b \<Rightarrow>
           if sint start_slot \<le> sint (as_i64 (blk_slot b))
           then and_then (block_item K (Inr b)) (\<lambda>item. Inr (Some item)) else Inr None
       | UpdateError e \<Rightarrow> Inr (Some (Inl (Status Internal (rpc_error_to_string e))))
       | NewSlot _ \<Rightarrow> Inr None), ())"

interpretation range_stream: forwarder "stream_slots p K api sc" "slot_emit p K api sc"
  by unfold_locales (auto simp: slot_emit_def split: prod.split sum.split)

interpretation update_stream: forwarder
  "\<lambda>us (s, tx). (case forward_updates K start_slot us tx of (r, tx') \<Rightarrow> (r, s, tx'))"
  "update_emit K start_slot"
proof
  fix s :: unit and i "is" tx
  show "(case (s, tx) of (s, tx) \<Rightarrow> case forward_updates K start_slot (i # is) tx of (r, tx') \<Rightarrow> (r, s, tx')) =
      (case update_emit K start_slot i s of
         (Inl e, s') \<Rightarrow> (Inl e, s', tx)
       | (Inr None, s') \<Rightarrow>
           (case (s', tx) of (s, tx) \<Rightarrow> case forward_updates K start_slot is tx of (r, tx') \<Rightarrow> (r, s, tx'))
       | (Inr (Some item), s') \<Rightarrow>
           (case tx_send item tx of
              (True, tx') \<Rightarrow> (Inr (), s', tx')
            | (False, tx') \<Rightarrow>
                (case (s', tx') of (s, tx) \<Rightarrow> case forward_updates K start_slot is tx of (r, tx') \<Rightarrow> (r, s, tx'))))"
    by (cases i) (auto simp: update_emit_def split: prod.split sum.split option.split bool.split)
qed simp

subsection \<open>The range check\<close>

lemma sint_sub_wrap:
  assumes "sint b \<le> sint a" and "2 ^ 63 \<le> sint a - sint b"
  shows "sint (a - b :: i64) = sint a - sint b - 2 ^ 64"
proof -
  let ?d = "sint a - sint b"
  have lt: "?d < 2 ^ 64" using sint_i64_range [of a] sint_i64_range [of b] by simp
  have "uint (a - b) = ?d mod 2 ^ 64"
  proof -
    have "uint a = sint a mod 2 ^ 64" "uint b = sint b mod 2 ^ 64"
      by (simp_all add: uint_sint take_bit_eq_mod)
    moreover have "uint (a - b) = (uint a - uint b) mod 2 ^ 64"
      using uint_word_ariths(2) [of a b] by simp
    ultimately show ?thesis by (simp only: mod_diff_eq)
  qed
  with lt assms have "uint (a - b) = ?d" by simp
  with assms(2) show ?thesis by (simp add: sint_i64)
qed

lemma range_check_accepts:
  "range_check p req = Inr (Inr ()) \<longleftrightarrow>
     sint (gr_start_slot req) \<le> sint (gr_end_slot req) \<and>
     (sint (gr_end_slot req) - sint (gr_start_slot req) \<le> 1000 \<or>
      p = Release \<and> 2 ^ 63 \<le> sint (gr_end_slot req) - sint (gr_start_slot req))"
proof -
  let ?a = "sint (gr_end_slot req)" and ?b = "sint (gr_start_slot req)"
  let ?d = "sint (gr_end_slot req - gr_start_slot req)"
  have m: "sint MAX_RANGE = 1000" by (simp add: MAX_RANGE_def sint_i64)
  consider "?a < ?b" | "?b \<le> ?a" "?a - ?b < 2 ^ 63" | "?b \<le> ?a" "2 ^ 63 \<le> ?a - ?b" by linarith
  then show ?thesis
  proof cases
    case 2
    then have "?d = ?a - ?b" by (intro sint_sub_i64) simp_all
    with 2 m show ?thesis by (auto simp: range_check_def sub_i64_def)
  next
    case 3
    then have "?d < 0"
      using sint_sub_wrap [of "gr_start_slot req" "gr_end_slot req"] sint_i64_range [of "gr_end_slot req"]
        sint_i64_range [of "gr_start_slot req"] by simp
    with 3 m show ?thesis by (cases p) (auto simp: range_check_def sub_i64_def)
  qed (simp add: range_check_def)
qed

lemma block_item_conv:
  "block_item K r =
     (case r of
        Inl e \<Rightarrow> Inr (Inl (Status Internal (rpc_error_to_string e)))
      | Inr b \<Rightarrow> if list_all (transaction_ok K) (blk_transactions b) then Inr (Inr (block_data_of K b))
                 else Inl IndexOutOfBounds)"
  by (simp add: block_item_def convert_block_data_eq split: sum.split)

lemma get_block_handler_cases:
  "get_block_handler p K api sc req s =
     (case get_block p K api sc (as_u64 (gb_slot req)) s of
        (Inl e, s') \<Rightarrow> (Inl e, s')
      | (Inr (Inl e), s') \<Rightarrow>
          (Inr (Inl (Status Internal (''Failed to fetch block: '' @ rpc_error_to_string e))), s')
      | (Inr (Inr b), s') \<Rightarrow>
          (if list_all (transaction_ok K) (blk_transactions b)
           then Inr (Inr \<lparr>gb_block_data = Some (block_data_of K b)\<rparr>) else Inl IndexOutOfBounds, s'))"
  by (auto simp: get_block_handler_def convert_block_data_eq split: prod.split sum.split)

subsection \<open>What the tasks deliver, without the loops\<close>

lemma block_item_Inr_cases:
  "block_item K r = Inr item \<Longrightarrow>
   (case item of
      Inl st \<Rightarrow> code st = Internal
    | Inr bd \<Rightarrow> \<exists>b. r = Inr b \<and> bd = block_data_of K b)"
  by (auto simp: block_item_conv split: sum.splits if_splits)

text \<open>One item per slot: the slot's block, or an \<open>Internal\<close> status.\<close>

definition answers_slot :: "u64 \<Rightarrow> stream_item \<Rightarrow> bool" where
  "answers_slot slot item =
     (case item of
        Inl st \<Rightarrow> code st = Internal
      | Inr bd \<Rightarrow> (case bd_block bd of Some hdr \<Rightarrow> pb_slot hdr = as_i64 slot | None \<Rightarrow> False))"

lemma slot_emit_item:
  "slot_emit p K api sc slot s = (Inr r, s') \<Longrightarrow> \<exists>item. r = Some item \<and> answers_slot slot item"
  by (auto simp: slot_emit_def outcome_iff answers_slot_def block_item_conv block_data_of_def
      convert_header_def get_block_slot split: prod.splits sum.splits if_splits)

lemma slot_emit_panic:
  assumes "sys_ok (sc_client sc) s" and "api_ok api (sc_client sc)" and "slot_emit p K api sc slot s = (r, s')"
  shows "sys_ok (sc_client sc) s' \<and> (\<forall>e. r = Inl e \<longrightarrow> e \<in> {ArithmeticOverflow, IndexOutOfBounds})"
proof -
  obtain q t where q: "get_block p K api sc slot s = (q, t)" "sys_ok (sc_client sc) t"
      "\<forall>e. q = Inl e \<longrightarrow> e = ArithmeticOverflow"
    using get_block_crash [OF assms(1,2), of p K slot] by blast
  with assms(3) show ?thesis
    by (auto simp: slot_emit_def outcome_iff block_item_conv split: sum.splits if_splits)
qed

lemma slot_emissions:
  assumes "sys_ok (sc_client sc) s" and "api_ok api (sc_client sc)"
    and "emissions (slot_emit p K api sc) slots s = (items, r)"
  shows "case r of Inl e \<Rightarrow> e \<in> {ArithmeticOverflow, IndexOutOfBounds} | Inr _ \<Rightarrow> list_all2 answers_slot slots items"
  using assms(1,3)
proof (induction slots arbitrary: s items r)
  case Nil
  then show ?case by (auto split: sum.split)
next
  case (Cons slot slots)
  obtain q t where e: "slot_emit p K api sc slot s = (q, t)" by fastforce
  have t: "sys_ok (sc_client sc) t" and panic: "\<And>e. q = Inl e \<Longrightarrow> e \<in> {ArithmeticOverflow, IndexOutOfBounds}"
    using slot_emit_panic [OF Cons.prems(1) assms(2) e] by auto
  show ?case
  proof (cases q)
    case (Inl e)
    with Cons.prems(2) panic e show ?thesis by auto
  next
    case (Inr o')
    then obtain item where item: "q = Inr (Some item)" "answers_slot slot item"
      using slot_emit_item e by blast
    obtain items' where "emissions (slot_emit p K api sc) slots t = (items', r)" "items = item # items'"
      using Cons.prems(2) item(1) by (auto simp: e split: prod.splits)
    with Cons.IH [OF t] item(2) show ?thesis by (auto split: sum.splits)
  qed
qed

text \<open>While the channel stays open, a range is streamed in parts.\<close>

lemma stream_slots_append:
  "stream_slots p K api sc before (s, tx) = (Inr (), s', tx') \<Longrightarrow>
   (\<forall>n. hangs_up tx = Some n \<longrightarrow> length (delivered tx) + length before \<le> n) \<Longrightarrow>
   stream_slots p K api sc (before @ slots) (s, tx) = stream_slots p K api sc slots (s', tx') \<and>
   (\<exists>items. delivered tx' = delivered tx @ items \<and> list_all2 answers_slot before items)"
proof (induction before arbitrary: s tx)
  case (Cons slot before)
  obtain q t where q: "slot_emit p K api sc slot s = (q, t)" by fastforce
  have "q \<noteq> Inl e" for e using Cons.prems(1) q by (auto simp: range_stream.loop_Cons simp del: stream_slots.simps)
  then obtain r where "q = Inr r" by (cases q) auto
  then obtain item where item: "q = Inr (Some item)" "answers_slot slot item" using slot_emit_item q by blast
  let ?tx = "tx\<lparr>delivered := delivered tx @ [item]\<rparr>"
  have sent: "tx_send item tx = (False, ?tx)"
    using Cons.prems(2) by (auto simp: tx_send_def split: option.split)
  have "stream_slots p K api sc before (t, ?tx) = (Inr (), s', tx')"
    using Cons.prems(1) q item(1) sent by (simp add: range_stream.loop_Cons del: stream_slots.simps)
  moreover have "\<forall>n. hangs_up ?tx = Some n \<longrightarrow> length (delivered ?tx) + length before \<le> n"
    using Cons.prems(2) by auto
  ultimately have IH: "stream_slots p K api sc (before @ slots) (t, ?tx) = stream_slots p K api sc slots (s', tx')"
      "\<exists>items. delivered tx' = delivered ?tx @ items \<and> list_all2 answers_slot before items"
    using Cons.IH [of t ?tx] by blast+
  from IH(2) obtain items where "delivered tx' = delivered tx @ item # items"
      "list_all2 answers_slot (slot # before) (item # items)"
    using item(2) by auto
  moreover have "stream_slots p K api sc ((slot # before) @ slots) (s, tx) = stream_slots p K api sc slots (s', tx')"
    using IH(1) q item(1) sent by (simp add: range_stream.loop_Cons del: stream_slots.simps)
  ultimately show ?case by blast
qed simp

text \<open>What becomes of an update, and when a block can be converted.\<close>

definition item_of_update :: "sdk \<Rightarrow> i64 \<Rightarrow> slot_update \<Rightarrow> stream_item option" where
  "item_of_update K start_slot u =
     (case u of
        NewBlock b \<Rightarrow>
          if sint start_slot \<le> sint (as_i64 (blk_slot b)) then Some (Inr (block_data_of K b)) else None
      | UpdateError e \<Rightarrow> Some (Inl (Status Internal (rpc_error_to_string e)))
      | NewSlot _ \<Rightarrow> None)"

definition convertible :: "sdk \<Rightarrow> slot_update \<Rightarrow> bool" where
  "convertible K u = (case u of NewBlock b \<Rightarrow> list_all (transaction_ok K) (blk_transactions b) | _ \<Rightarrow> True)"

lemma update_emit_ok:
  "convertible K u \<Longrightarrow> update_emit K start_slot u s = (Inr (item_of_update K start_slot u), ())"
  by (auto simp: update_emit_def item_of_update_def convertible_def block_item_conv split: slot_update.split)

lemma update_emit_Inr:
  "update_emit K start_slot u s = (Inr r, s') \<Longrightarrow> r = item_of_update K start_slot u"
  by (auto simp: update_emit_def item_of_update_def block_item_conv split: slot_update.splits if_splits)

lemma update_emissions:
  "list_all (convertible K) us \<Longrightarrow>
   emissions (update_emit K start_slot) us s = (List.map_filter (item_of_update K start_slot) us, Inr ())"
  by (induction us arbitrary: s) (auto simp: update_emit_ok map_filter_simps split: option.split)

lemma update_emissions_set:
  "set (fst (emissions (update_emit K start_slot) us s)) \<subseteq> {item. \<exists>u \<in> set us. item_of_update K start_slot u = Some item}"
proof (induction us arbitrary: s)
  case Nil
  then show ?case by simp
next
  case (Cons u us)
  show ?case
    using Cons [of "()"] by (auto dest!: update_emit_Inr split: prod.splits sum.splits option.splits)
qed

lemma update_emissions_Inl:
  "snd (emissions (update_emit K start_slot) us s) = Inl e \<Longrightarrow>
   e = IndexOutOfBounds \<and>
   (\<exists>b. NewBlock b \<in> set us \<and> sint start_slot \<le> sint (as_i64 (blk_slot b)) \<and>
      \<not> list_all (transaction_ok K) (blk_transactions b))"
proof (induction us arbitrary: s)
  case (Cons u us)
  show ?case
  proof (cases "fst (update_emit K start_slot u s)")
    case (Inl e')
    then have "e' = IndexOutOfBounds \<and> (\<exists>b. u = NewBlock b \<and> sint start_slot \<le> sint (as_i64 (blk_slot b)) \<and>
        \<not> list_all (transaction_ok K) (blk_transactions b))"
      by (auto simp: update_emit_def block_item_conv split: slot_update.splits if_splits)
    with Inl Cons.prems show ?thesis by (auto split: prod.splits)
  next
    case (Inr r)
    with Cons.prems have "snd (emissions (update_emit K start_slot) us ()) = Inl e"
      by (auto split: prod.splits option.splits)
    from Cons.IH [OF this] show ?thesis by auto
  qed
qed simp

lemma forward_delivers:
  "forward_updates K start_slot us tx = (r, tx') \<Longrightarrow>
   delivered tx' = accepted tx (fst (emissions (update_emit K start_slot) us ())) \<and> hangs_up tx' = hangs_up tx"
  using update_stream.loop_delivers [of K start_slot us "()" tx r "()" tx'] by simp

lemma forward_result:
  "hangs_up tx = None \<Longrightarrow>
   fst (forward_updates K start_slot us tx) = snd (emissions (update_emit K start_slot) us ())"
  using update_stream.loop_result [of tx K start_slot us "()"] by (simp split: prod.splits)

lemma item_accepted: "item \<in> set (accepted \<lparr>delivered = [], hangs_up = h\<rparr> items) \<Longrightarrow> item \<in> set items"
  by (auto simp: accepted_def dest: in_set_takeD split: option.splits)

lemma forward_slots:
  "list_all is_slot us \<Longrightarrow> forward_updates K start_slot (us @ vs) tx = forward_updates K start_slot vs tx"
proof (induction us)
  case (Cons u us)
  then show ?case by (cases u) simp_all
qed simp

lemma forwarded_items:
  assumes "item \<in> set (delivered (snd (forward_updates K start_slot us \<lparr>delivered = [], hangs_up = h\<rparr>)))"
  shows "\<exists>u \<in> set us. item_of_update K start_slot u = Some item"
proof -
  obtain r tx' where t: "forward_updates K start_slot us \<lparr>delivered = [], hangs_up = h\<rparr> = (r, tx')" by fastforce
  with assms forward_delivers [OF t]
  have "item \<in> set (fst (emissions (update_emit K start_slot) us ()))" by (auto intro: item_accepted)
  with update_emissions_set show ?thesis by blast
qed

text \<open>The signatures of the rows are those of the node's transactions.\<close>

lemma converted_signatures:
  assumes "convert_transactions K slot txs = Inr (blk_transactions b)"
  shows "map ptx_signature (bd_transactions (block_data_of K b)) =
    map (\<lambda>tx. signature_to_string K (fst (the (decoded K tx)))) (case txs of Some xs \<Rightarrow> xs | None \<Rightarrow> [])"
proof -
  have s: "ptx_signature (transaction_row K tx) = et_signature tx" for tx
    by (simp add: transaction_row_def convert_transaction_row_def Let_def)
  have e: "et_signature (enrich K slot tx d) = signature_to_string K (fst d)" for tx d
    by (simp add: enrich_def split: prod.split)
  show ?thesis
    using assms by (auto simp: convert_transactions_def collect_convert block_data_of_def s e split: option.splits)
qed

lemma range_check_unfold:
  "range_check p req =
     (let d = sint (gr_end_slot req) - sint (gr_start_slot req) in
      if d < 0 then Inr (Inl (Status InvalidArgument ''start_slot must be less than or equal to end_slot''))
      else if d < 2 ^ 63 then
        (if d \<le> 1000 then Inr (Inr ())
         else Inr (Inl (Status InvalidArgument ''slot range too large, maximum is 1000'')))
      else if p = Debug then Inl ArithmeticOverflow else Inr (Inr ()))"
proof -
  let ?a = "sint (gr_end_slot req)" and ?b = "sint (gr_start_slot req)"
  let ?d = "sint (gr_end_slot req - gr_start_slot req)"
  have m: "sint MAX_RANGE = 1000" "nat (sint MAX_RANGE) = 1000" by (simp_all add: MAX_RANGE_def sint_i64)
  have msg: "dec 1000 = ''1000''" by (simp add: dec.simps digit_def)
  consider "?a < ?b" | "?b \<le> ?a" "?a - ?b < 2 ^ 63" | "?b \<le> ?a" "2 ^ 63 \<le> ?a - ?b" by linarith
  then show ?thesis
  proof cases
    case 2
    then have "?d = ?a - ?b" by (intro sint_sub_i64) simp_all
    with 2 m msg show ?thesis by (auto simp: range_check_def sub_i64_def Let_def)
  next
    case 3
    then have "?d < 0"
      using sint_sub_wrap [of "gr_start_slot req" "gr_end_slot req"] sint_i64_range [of "gr_end_slot req"]
        sint_i64_range [of "gr_start_slot req"] by simp
    with 3 m show ?thesis by (cases p) (auto simp: range_check_def sub_i64_def Let_def)
  qed (simp add: range_check_def Let_def)
qed

subsection \<open>A run of the demonstration subscription\<close>

lemma demo_subscription_run:
  "\<exists>st. run demo_env (demo_stream @ [Sent, Recv, Recv]) (subscribe_slots demo_env (demo_sys 1 ())) = Some st \<and>
     received st = [NewSlot demo_slot, NewBlock demo_fetched]"
proof -
  let ?s = "demo_sys 1 ()\<lparr>active_subscriptions := {''slot-1''}\<rparr>"
  have "get_block Debug demo_sdk demo_api demo_client 42 ?s = (Inr (Inr demo_fetched), ?s)"
    by (rule demo_get_block)
  then show ?thesis
    by (simp add: demo_stream_def demo_slot_def subscribe_slots_def finish_send_open CHANNEL_CAPACITY_def fetch_def)
qed

lemma demo_fetched_delivered:
  "delivered (snd (forward_updates demo_sdk 40 [NewSlot demo_slot, NewBlock demo_fetched]
     \<lparr>delivered = [], hangs_up = None\<rparr>)) = [Inr (block_data_of demo_sdk demo_fetched)]"
proof -
  have "transaction_ok demo_sdk (demo_tx)" by simp
  then have "list_all (transaction_ok demo_sdk) (blk_transactions demo_fetched)"
    by (simp add: demo_fetched_def transaction_ok_def Let_def)
  moreover have "sint (40 :: i64) \<le> sint (as_i64 (blk_slot demo_fetched))"
    by (simp add: demo_fetched_def as_i64_def sint_i64)
  ultimately show ?thesis by (simp add: block_item_conv tx_send_def)
qed

subsection \<open>Properties\<close>

text \<open>C24: The range check of \<open>get_block_range\<close>, case by case: a reversed range and one of more than 1000
  slots are rejected with \<open>InvalidArgument\<close>, a smaller one passes. But a range of 2^63 slots or more
  (a negative start) overflows the subtraction: it panics in a build with overflow checks, and
  passes the check in a build without.\<close>

theorem range_check_cases:
  "range_check p req =
     (let d = sint (gr_end_slot req) - sint (gr_start_slot req) in
      if d < 0 then Inr (Inl (Status InvalidArgument ''start_slot must be less than or equal to end_slot''))
      else if d < 2 ^ 63 then
        (if d \<le> 1000 then Inr (Inr ())
         else Inr (Inl (Status InvalidArgument ''slot range too large, maximum is 1000'')))
      else if p = Debug then Inl ArithmeticOverflow else Inr (Inr ()))"
  by (rule range_check_unfold)

text \<open>A small range that starts below zero passes the check and is then asked for upside down: cast
  to unsigned, its start is at least 2^63 and larger than its end.\<close>

lemma negative_range_reversed:
  assumes "sint (gr_start_slot req) < 0" and "0 \<le> sint (gr_end_slot req)"
    and "sint (gr_end_slot req) - sint (gr_start_slot req) \<le> 1000"
  shows "get_block_range_handler p K api sc req = Inr (Inr (range_task p K api sc req)) \<and>
    as_u64 (gr_end_slot req) < as_u64 (gr_start_slot req) \<and> 2 ^ 63 \<le> unat (as_u64 (gr_start_slot req))"
proof -
  have "unat (as_u64 (gr_start_slot req)) = unat (gr_start_slot req)"
    "unat (as_u64 (gr_end_slot req)) = unat (gr_end_slot req)" by (simp_all add: as_u64_def)
  moreover have "2 ^ 63 \<le> unat (gr_start_slot req)"
  proof (rule ccontr)
    assume "\<not> 2 ^ 63 \<le> unat (gr_start_slot req)"
    then have "sint (gr_start_slot req) = int (unat (gr_start_slot req))" by (intro sint_i64_small) simp
    with assms(1) show False by simp
  qed
  moreover have "unat (gr_end_slot req) < 2 ^ 63"
    using unat_i64_nonneg [OF assms(2)] sint_i64_range(2) [of "gr_end_slot req"]
    by (metis of_nat_less_iff of_nat_numeral of_nat_power)
  moreover have "range_check p req = Inr (Inr ())" using assms by (simp add: range_check_accepts)
  ultimately show ?thesis by (simp add: get_block_range_handler_def word_less_nat_alt)
qed

lemma negative_range_reversed_witness:
  "as_u64 5 < as_u64 (- 3) \<and>
   get_block_range_handler Debug demo_sdk demo_api demo_client \<lparr>gr_start_slot = - 3, gr_end_slot = 5\<rparr> =
     Inr (Inr (range_task Debug demo_sdk demo_api demo_client \<lparr>gr_start_slot = - 3, gr_end_slot = 5\<rparr>))"
  using negative_range_reversed [of "\<lparr>gr_start_slot = - 3, gr_end_slot = 5\<rparr>" Debug demo_sdk demo_api demo_client]
  by simp

text \<open>C13: The task of \<open>get_block_range\<close>, with a consumer that stays: either it reports that the node gave
  no list of slots, or it delivers one item for each slot of the node's list, in order, the block of
  that slot or an \<open>Internal\<close> status; the only ways it ends early are the panics of a block's totals
  and of an index out of range in a block.\<close>

theorem range_task_delivers:
  assumes "sys_ok (sc_client sc) s" and "api_ok api (sc_client sc)" and "hangs_up tx = None"
  shows "\<exists>r s' items. range_task p K api sc req (s, tx) = (r, s', tx\<lparr>delivered := delivered tx @ items\<rparr>) \<and>
    (case r of
       Inl e \<Rightarrow> e \<in> {ArithmeticOverflow, IndexOutOfBounds}
     | Inr _ \<Rightarrow>
         (\<exists>q s1. get_blocks p api sc (as_u64 (gr_start_slot req)) (Some (as_u64 (gr_end_slot req))) s = (Inr q, s1) \<and>
            (case q of
               Inl e \<Rightarrow> items = [Inl (Status Internal (''Failed to get block range: '' @ rpc_error_to_string e))]
             | Inr slots \<Rightarrow> list_all2 answers_slot slots items)))"
proof -
  obtain q s1 where q: "get_blocks p api sc (as_u64 (gr_start_slot req)) (Some (as_u64 (gr_end_slot req))) s = (Inr q, s1)"
      "sys_ok (sc_client sc) s1"
    using get_blocks_answer [OF assms(1,2)] by blast
  show ?thesis
  proof (cases q)
    case (Inl e)
    with q(1) assms(3) show ?thesis by (fastforce simp: range_task_def tx_send_def)
  next
    case (Inr slots)
    obtain items r where e: "emissions (slot_emit p K api sc) slots s1 = (items, r)" by fastforce
    obtain r' s' tx' where t: "stream_slots p K api sc slots (s1, tx) = (r', s', tx')" by (metis prod_cases3)
    have "r' = r" using range_stream.loop_result [OF assms(3), of p K api sc slots s1] t e by simp
    moreover have "tx' = tx\<lparr>delivered := delivered tx @ items\<rparr>"
      using range_stream.loop_delivers [OF t] e assms(3) by (simp add: accepted_def)
    ultimately show ?thesis
      using q(1) Inr t slot_emissions [OF q(2) assms(2) e] by (auto simp: range_task_def split: sum.splits)
  qed
qed

theorem range_task_delivers_witness:
  "\<exists>r s' items. range_task Release demo_sdk demo_api demo_client \<lparr>gr_start_slot = 40, gr_end_slot = 45\<rparr>
      (demo_sys 0 (), \<lparr>delivered = [], hangs_up = None\<rparr>) = (r, s', \<lparr>delivered = items, hangs_up = None\<rparr>)"
  using range_task_delivers [of demo_client "demo_sys 0 ()" demo_api "\<lparr>delivered = [], hangs_up = None\<rparr>"
      Release demo_sdk "\<lparr>gr_start_slot = 40, gr_end_slot = 45\<rparr>"] by fastforce

text \<open>A consumer that hangs up after \<open>n\<close> messages got exactly the first \<open>n\<close> of those it would have got
  by staying, from both streaming tasks: hanging up changes nothing that was sent before.\<close>

lemma hang_up_takes_prefix:
  "delivered (snd (snd (stream_slots p K api sc slots (s, \<lparr>delivered = [], hangs_up = Some n\<rparr>)))) =
     take n (delivered (snd (snd (stream_slots p K api sc slots (s, \<lparr>delivered = [], hangs_up = None\<rparr>))))) \<and>
   delivered (snd (subscribe_task K req updates \<lparr>delivered = [], hangs_up = Some n\<rparr>)) =
     take n (delivered (snd (subscribe_task K req updates \<lparr>delivered = [], hangs_up = None\<rparr>)))"
proof -
  have "delivered (snd (snd (stream_slots p K api sc slots (s, tx)))) =
      accepted tx (fst (emissions (slot_emit p K api sc) slots s))" for tx
    using range_stream.loop_delivers [of p K api sc slots s tx] by (metis prod.collapse)
  moreover have "delivered (snd (subscribe_task K req updates tx)) =
      accepted tx (fst (emissions (update_emit K (sn_start_slot req)) updates ()))" for tx
    using forward_delivers [of K "sn_start_slot req" updates tx] by (metis prod.collapse subscribe_task_def)
  ultimately show ?thesis by (simp add: accepted_def)
qed

text \<open>C16: The task of \<open>subscribe_new_blocks\<close>, with a consumer that stays and blocks that convert: every
  update is handled, in order; a block of the start slot or later gives its data, an earlier one
  nothing, an error an \<open>Internal\<close> status, and a mere slot nothing.\<close>

theorem subscription_forwards_all:
  assumes "hangs_up tx = None" and "list_all (convertible K) updates"
  shows "subscribe_task K req updates tx =
    (Inr (), tx\<lparr>delivered := delivered tx @ List.map_filter (item_of_update K (sn_start_slot req)) updates\<rparr>)"
proof -
  obtain r tx' where t: "forward_updates K (sn_start_slot req) updates tx = (r, tx')" by fastforce
  have "delivered tx' = delivered tx @ List.map_filter (item_of_update K (sn_start_slot req)) updates"
      "hangs_up tx' = None"
    using forward_delivers [OF t] update_emissions [OF assms(2)] assms(1) by (simp_all add: accepted_def)
  moreover have "r = Inr ()"
    using forward_result [OF assms(1), of K "sn_start_slot req" updates] update_emissions [OF assms(2)] t by simp
  ultimately show ?thesis using t assms(1) by (simp add: subscribe_task_def)
qed

theorem subscription_forwards_all_witness:
  "fst (subscribe_task demo_sdk \<lparr>sn_start_slot = 42\<rparr> [NewSlot demo_slot, NewBlock demo_block]
     \<lparr>delivered = [], hangs_up = None\<rparr>) = Inr ()"
  by (subst subscription_forwards_all) (simp_all add: convertible_def)

end
