(* ===== verification/Spawned_Tasks.thy ===== *)
theory Spawned_Tasks
  imports Service
begin

section \<open>How spawned tasks end\<close>

text \<open>
  \<open>get_block_range\<close> and \<open>subscribe_new_blocks\<close> clone the client into the task they spawn, and
  \<open>subscribe_slots\<close> into the subscription task; each clone is dropped when its task ends, by the
  \<open>Drop\<close> of \<open>rpc/client.rs\<close>. A task that panics drops its clone while it unwinds, and a second panic
  while unwinding aborts the process. \<open>worker\<close> is the context of every task: inside the runtime,
  where \<open>block_on\<close> panics.
\<close>

datatype task_exit = Completed | Panicked panic | Aborted

definition end_task :: "tokio_context \<Rightarrow> unit outcome \<Rightarrow> 'w sys \<Rightarrow> task_exit \<times> 'w sys" where
  "end_task rt r s =
     (case drop_client rt s of
        (Inr _, s') \<Rightarrow> ((case r of Inr _ \<Rightarrow> Completed | Inl e \<Rightarrow> Panicked e), s')
      | (Inl e', s') \<Rightarrow> ((case r of Inr _ \<Rightarrow> Panicked e' | Inl _ \<Rightarrow> Aborted), s'))"

definition worker :: tokio_context where
  "worker = \<lparr>inside_runtime = True, block_on_allowed = False\<rparr>"

lemma end_task_worker [simp]:
  "end_task worker r s = ((case r of Inr _ \<Rightarrow> Panicked RuntimeNesting | Inl _ \<Rightarrow> Aborted), s)"
  by (simp add: end_task_def worker_def drop_client_def split: sum.split)

text \<open>The task of \<open>get_block_range\<close> to its end, and the end of the subscription task.\<close>

definition spawned_range ::
    "tokio_context \<Rightarrow> profile \<Rightarrow> sdk \<Rightarrow> ('c, 'w) rpc_api \<Rightarrow> 'c solana_client \<Rightarrow> get_block_range_request \<Rightarrow>
     'w sys \<times> response \<Rightarrow> task_exit \<times> 'w sys \<times> response" where
  "spawned_range rt p K api sc req st =
     (case range_task p K api sc req st of (r, s', tx') \<Rightarrow>
       (case end_task rt r s' of (x, s'') \<Rightarrow> (x, s'', tx')))"

definition subscription_exit :: "tokio_context \<Rightarrow> 'w sub_state \<Rightarrow> (task_exit \<times> 'w sys) option" where
  "subscription_exit rt st =
     (case phase st of
        Finished _ \<Rightarrow> Some (end_task rt (Inr ()) (shared st))
      | Crashed e \<Rightarrow> Some (end_task rt (Inl e) (shared st))
      | _ \<Rightarrow> None)"

subsection \<open>A node whose block does not convert\<close>

text \<open>
  The demonstration node with transactions of one \<open>TransferChecked\<close> that names a single account, as a
  failed transaction on the chain may.
\<close>

definition short_transaction :: transaction where
  "short_transaction =
     \<lparr>signatures = [Signature [9]], tx_message = demo_message [demo_ix 1 [5] [12, 1, 0]]\<rparr>"

definition short_sdk :: sdk where
  "short_sdk = demo_sdk\<lparr>decode_transaction := (\<lambda>bytes. Inr short_transaction)\<rparr>"

definition short_block :: block where
  "short_block = demo_fetched
     \<lparr>blk_transactions := (let tx = \<lparr>et_signature = ''signature'', et_slot = 42, et_error = None,
        et_meta = Some demo_meta, et_transaction = short_transaction\<rparr> in [tx, tx])\<rparr>"

lemma short_sdk_simps [simp]:
  "pubkey_to_string short_sdk = demo_key_text" "signature_to_string short_sdk sg = ''signature''"
  "spl_token_id short_sdk = Pubkey [1]" "unpack_token short_sdk = demo_unpack_token"
  "base64_decode short_sdk s = (if s = ''bad'' then Inl ''invalid'' else Inr [0])"
  "decode_transaction short_sdk bytes = Inr short_transaction"
  by (simp_all add: short_sdk_def)

lemma short_get_block_with:
  "get_block Release short_sdk demo_api demo_client 42 ((demo_sys 1 ())\<lparr>active_subscriptions := a\<rparr>) =
     (Inr (Inr short_block), (demo_sys 1 ())\<lparr>active_subscriptions := a\<rparr>)"
proof -
  have "build_block Release short_sdk 42 demo_ui_block 1700000000 = Inr (Inr short_block)"
    by (simp add: build_block_def demo_ui_block_def short_block_def demo_fetched_def fee_reward_def as_u64_def
        demo_wire_def Let_def demo_meta_def tx_fee_def tx_units_def add_u64_def convert_transactions_def
        convert_transaction_def short_transaction_def)
  then show ?thesis by (simp only: demo_get_block_with)
qed

lemma short_get_block:
  "get_block Release short_sdk demo_api demo_client 42 (demo_sys 1 ()) = (Inr (Inr short_block), demo_sys 1 ())"
proof -
  have s: "demo_sys 1 () = (demo_sys 1 ())\<lparr>active_subscriptions := {}\<rparr>" by (simp add: demo_sys_def)
  show ?thesis by (subst (1 2) s) (rule short_get_block_with)
qed

lemma short_block_bad: "\<not> list_all (transaction_ok short_sdk) (blk_transactions short_block)"
  by (simp add: short_block_def Let_def transaction_ok_def short_transaction_def instruction_ok_def
      transfer_accounts_ok_def program_key_ok_def is_token_program_def)

lemma demo_get_blocks:
  "get_blocks p demo_api demo_client a (Some b) (demo_sys 1 ()) = (Inr (Inr [a]), demo_sys 1 ())"
  by (simp add: get_blocks_def execute_with_failover_def)
     (subst failover_loop.simps, simp add: lock_ok_def map_err_eff_def demo_sys_def)

text \<open>A node that lists slot 7, which it does not have, and then that block.\<close>

definition two_slot_api :: "(nat, unit) rpc_api" where
  "two_slot_api = demo_api\<lparr>api_get_blocks := (\<lambda>c a b cm s. (Inr [7, 42], s))\<rparr>"

lemma two_slot_get_block: "get_block p K two_slot_api sc slot s = get_block p K demo_api sc slot s"
  by (simp add: get_block_def get_block_time_def two_slot_api_def)

lemma demo_order: "rotate 2 [0, Suc 0, 2] = [2, 0, Suc 0]"
  by (simp add: numeral_2_eq_2)

lemma two_slot_list:
  "get_blocks Release two_slot_api demo_client (as_u64 (gr_start_slot \<lparr>gr_start_slot = 7, gr_end_slot = 50\<rparr>))
     (Some (as_u64 (gr_end_slot \<lparr>gr_start_slot = 7, gr_end_slot = 50\<rparr>))) (demo_sys 2 ()) =
   (Inr (Inr ([7] @ 42 # [])), demo_sys 2 ())"
proof -
  have "execute_with_failover demo_multi_client (\<lambda>c. map_err_eff f (api_get_blocks two_slot_api c a b cm)) (demo_sys 2 ()) =
      (Inr (Inr [7, 42]), demo_sys 2 ())" for f a b cm
    by (subst failover_in_order [where c = 2 and cs = "[0, 1]" and r = "Inr [7, 42]" and k = 0 and s' = "demo_sys 2 ()"])
       (simp_all add: leaves_lock_def map_err_eff_def two_slot_api_def lock_ok_def demo_order demo_sys_def)
  then show ?thesis by (simp add: get_blocks_def)
qed

lemma demo_slot_7_missing:
  "get_block p K demo_api demo_client 7 (demo_sys 2 ()) = (Inr (Inl (block_error 7 demo_missing)), demo_sys 1 ())"
proof -
  have "execute_with_failover demo_multi_client (\<lambda>c. map_err_eff (block_error 7)
      (api_get_block demo_api c 7 (default_block_config demo_multi_client))) (demo_sys 2 ()) =
      (Inr (Inl (block_error 7 demo_missing)), demo_sys 1 ())"
    by (subst failover_in_order [where c = 2 and cs = "[0, 1]" and r = "Inl (block_error 7 demo_missing)" and k = 2
          and s' = "demo_sys 2 ()"])
       (simp_all add: leaves_lock_def map_err_eff_def lock_ok_def demo_order demo_sys_def)
  then show ?thesis by (simp add: get_block_def run_then_def)
qed

lemma first_slot_streamed:
  "stream_slots Release short_sdk two_slot_api demo_client [7] (demo_sys 2 (), \<lparr>delivered = [], hangs_up = Some 1\<rparr>) =
     (Inr (), demo_sys 1 (), \<lparr>delivered = [Inl (Status Internal (rpc_error_to_string (block_error 7 demo_missing)))],
        hangs_up = Some 1\<rparr>)"
  by (simp add: two_slot_get_block demo_slot_7_missing block_item_def tx_send_def del: One_nat_def)

lemma second_slot_bad:
  "get_block Release short_sdk two_slot_api demo_client 42 (demo_sys 1 ()) = (Inr (Inr short_block), demo_sys 1 ())"
  unfolding two_slot_get_block by (rule short_get_block)

subsection \<open>Properties\<close>

text \<open>No task of \<open>get_block_range\<close> ends well: on a worker of the runtime it streams what it streams,
  and then panics in the drop of its client when all went well, or aborts the process when it was
  panicking already.\<close>

lemma range_task_never_completes:
  "spawned_range worker p K api sc req st =
     (case range_task p K api sc req st of
        (Inr _, s', tx') \<Rightarrow> (Panicked RuntimeNesting, s', tx')
      | (Inl _, s', tx') \<Rightarrow> (Aborted, s', tx'))"
  by (simp add: spawned_range_def split: prod.split sum.split)

text \<open>C33: One block with an index out of range takes the whole process down: when a slot of the node's list
  has such a block, at any place that the task reaches (no earlier slot panics, and the consumer takes
  the items before it), the items of the slots before it are delivered, one for each, and then the
  conversion panics, the task unwinds, the drop of its client panics again, and the process aborts.\<close>

theorem bad_block_aborts_process:
  assumes "get_blocks p api sc (as_u64 (gr_start_slot req)) (Some (as_u64 (gr_end_slot req))) s =
      (Inr (Inr (before @ slot # after)), s1)"
    and "stream_slots p K api sc before (s1, tx) = (Inr (), s2, tx')"
    and "\<forall>n. hangs_up tx = Some n \<longrightarrow> length (delivered tx) + length before \<le> n"
    and "get_block p K api sc slot s2 = (Inr (Inr b), s3)"
    and "\<not> list_all (transaction_ok K) (blk_transactions b)"
  shows "spawned_range worker p K api sc req (s, tx) = (Aborted, s3, tx') \<and>
    (\<exists>items. delivered tx' = delivered tx @ items \<and> list_all2 answers_slot before items)"
  using stream_slots_append [OF assms(2,3), of "slot # after"] assms(5)
  by (simp add: spawned_range_def range_task_def assms(1,4) block_item_conv)

theorem bad_block_aborts_process_witness:
  "\<exists>tx items. spawned_range worker Release short_sdk two_slot_api demo_client \<lparr>gr_start_slot = 7, gr_end_slot = 50\<rparr>
      (demo_sys 2 (), \<lparr>delivered = [], hangs_up = Some 1\<rparr>) = (Aborted, demo_sys 1 (), tx) \<and>
    delivered tx = items \<and> length items = 1"
  using bad_block_aborts_process [where p = Release and K = short_sdk and api = two_slot_api and sc = demo_client
      and req = "\<lparr>gr_start_slot = 7, gr_end_slot = 50\<rparr>" and before = "[7]" and after = "[]",
      OF two_slot_list first_slot_streamed _ second_slot_bad short_block_bad]
  by (auto dest: list_all2_lengthD)

text \<open>C34: A client built without WebSocket endpoints accepts a subscription that takes the process down:
  the one step its task can take is to index the empty list, before any connection is tried; it stays
  registered, and aborts the process as it drops its client.\<close>

theorem no_ws_endpoint_aborts:
  assumes "ws_endpoints (env_client E) = []"
  shows "\<exists>st. run E [PickEndpoint] (subscribe_slots E s) = Some st \<and>
    env_id E \<in> active_subscriptions (shared st) \<and>
    subscription_exit worker st = Some (Aborted, shared st) \<and>
    (\<forall>ev st'. own_event ev \<longrightarrow> react E ev (subscribe_slots E s) = Some st' \<longrightarrow> st' = st)"
proof -
  obtain st where "run E [PickEndpoint] (subscribe_slots E s) = Some st" "phase st = Crashed IndexOutOfBounds"
      "env_id E \<in> active_subscriptions (shared st)"
      "\<forall>ev st'. own_event ev \<longrightarrow> react E ev (subscribe_slots E s) = Some st' \<longrightarrow> st' = st"
    using no_endpoint_crash [OF assms, of s] by blast
  then show ?thesis by (intro exI [of _ st]) (simp add: subscription_exit_def del: run.simps react.simps)
qed

theorem no_ws_endpoint_aborts_witness:
  "\<exists>st. run idle_env [PickEndpoint] (subscribe_slots idle_env (demo_sys 0 ())) = Some st \<and>
     subscription_exit worker st = Some (Aborted, shared st)"
  using no_ws_endpoint_aborts [of idle_env "demo_sys 0 ()"]
  by (auto simp del: run.simps react.simps)

text \<open>C7: With at least one WebSocket endpoint, however the environment behaves: the body of the task never
  indexes out of range, divides by zero or finds the client's lock broken; it panics for one reason
  only, the overflow of the totals of a block an endpoint gave, in a build with overflow checks. The task
  ends in a panic all the same, for it owns a clone of the client: every return of the body is
  followed by the panic of the clone's drop, and a panic of the body by the abort of the process. The
  endpoint cursor stays in range and every sleep lasts 2 to 60 seconds.\<close>

theorem subscription_safe:
  assumes "env_ok E" and "sys_ok (sc_client (env_client E)) s0" and "reachable E s0 st"
  shows "(case phase st of
       Crashed e \<Rightarrow>
         e = ArithmeticOverflow \<and> env_profile E = Debug \<and>
         (\<exists>slot b. gave_block (env_api E) (env_client E) slot b \<and> totals_overflow b) \<and>
         subscription_exit worker st = Some (Aborted, shared st)
     | Finished x \<Rightarrow> subscription_exit worker st = Some (Panicked RuntimeNesting, shared st)
     | _ \<Rightarrow> subscription_exit worker st = None) \<and>
    current_endpoint st < length (ws_endpoints (env_client E)) \<and>
    list_all (\<lambda>d. 2 \<le> unat d \<and> unat d \<le> 60) (slept st) \<and>
    sys_ok (sc_client (env_client E)) (shared st)"
proof -
  have inv: "cursor_inv E st" by (rule reachable_cursor_inv [OF assms])
  then have "list_all (\<lambda>d. 2 \<le> unat d \<and> unat d \<le> 60) (slept st)"
    by (simp add: cursor_inv_def list_all_iff)
  with inv show ?thesis
    by (cases "phase st") (simp_all add: cursor_inv_def cursor_ok_def overflow_crash_def subscription_exit_def)
qed

theorem subscription_safe_witness:
  "\<exists>st. run demo_env [Connect (Inr ()), Subscribe (Inr ()), Cancel, Shutdown]
      (subscribe_slots demo_env (demo_sys 1 ())) = Some st \<and>
     subscription_exit worker st = Some (Panicked RuntimeNesting, shared st) \<and> current_endpoint st < 2"
proof -
  obtain st where st: "run demo_env [Connect (Inr ()), Subscribe (Inr ()), Cancel, Shutdown]
      (subscribe_slots demo_env (demo_sys 1 ())) = Some st" "phase st = Finished ShutdownExit"
    by (simp add: subscribe_slots_def)
  show ?thesis
    using subscription_safe [OF demo_env_ok _ reachable_run [OF reachable.start st(1)]] st by simp
qed

end
