(* ===== verification/Response_Channel.thy ===== *)
theory Response_Channel
  imports Spawned_Tasks
begin

section \<open>The response channel of a streaming call\<close>

text \<open>
  The contract between a streaming task and the consumer of its response, whatever the task does:
  \<open>tokio\<close>'s bounded channel between them is a queue. A step sends one item, while the consumer is
  there and a place is free, or hands the oldest item to the consumer, or is the consumer's leaving,
  or leaves the channel alone. Both streaming calls meet it (\<open>Block_Ranges\<close>, \<open>New_Blocks\<close>).
\<close>

locale response_channel =
  fixes step :: "'ev \<Rightarrow> 'p \<Rightarrow> 'p option"
    and exec :: "'ev list \<Rightarrow> 'p \<Rightarrow> 'p option"
    and got :: "'p \<Rightarrow> stream_item list"
    and waiting :: "'p \<Rightarrow> stream_item list"
    and here :: "'p \<Rightarrow> bool"
    and capacity :: nat
  assumes exec_Nil: "exec [] p = Some p"
    and exec_Cons: "exec (ev # evs) p = Option.bind (step ev p) (exec evs)"
    and step_cases: "step ev p = Some p' \<Longrightarrow>
      got p' = got p \<and> waiting p' = waiting p \<and> here p' = here p \<or>
      (\<exists>item. here p \<and> here p' \<and> length (waiting p) < capacity \<and>
         waiting p' = waiting p @ [item] \<and> got p' = got p) \<or>
      (\<exists>item. here p \<and> here p' \<and> waiting p = item # waiting p' \<and> got p' = got p @ [item]) \<or>
      \<not> here p' \<and> waiting p' = [] \<and> got p' = got p"
begin

lemma exec_bounded:
  "exec evs p = Some p' \<Longrightarrow> length (waiting p) \<le> capacity \<Longrightarrow> length (waiting p') \<le> capacity"
proof (induction evs arbitrary: p)
  case (Cons ev evs)
  then obtain q where q: "step ev p = Some q" "exec evs q = Some p'" by (auto simp: exec_Cons split: bind_splits)
  have "length (waiting q) \<le> capacity" using step_cases [OF q(1)] Cons.prems(2) by auto
  with Cons.IH q(2) show ?case by blast
qed (simp add: exec_Nil)

text \<open>Nothing the consumer got is taken back, and nothing is lost or reordered while it is there.\<close>

lemma exec_fifo:
  "exec evs p = Some p' \<Longrightarrow>
   prefix (got p) (got p') \<and> (here p' \<longrightarrow> here p \<and> prefix (got p @ waiting p) (got p' @ waiting p'))"
proof (induction evs arbitrary: p)
  case (Cons ev evs)
  then obtain q where q: "step ev p = Some q" "exec evs q = Some p'" by (auto simp: exec_Cons split: bind_splits)
  from Cons.IH [OF q(2)] step_cases [OF q(1)] show ?case
    by (elim disjE exE conjE) (auto elim!: prefix_order.trans [rotated] simp: prefix_def)
qed (simp add: exec_Nil)

lemma exec_gone:
  "exec evs p = Some p' \<Longrightarrow> \<not> here p \<Longrightarrow> waiting p = [] \<Longrightarrow> \<not> here p' \<and> waiting p' = [] \<and> got p' = got p"
proof (induction evs arbitrary: p)
  case (Cons ev evs)
  then obtain q where q: "step ev p = Some q" "exec evs q = Some p'" by (auto simp: exec_Cons split: bind_splits)
  have "\<not> here q \<and> waiting q = [] \<and> got q = got p" using step_cases [OF q(1)] Cons.prems(2,3) by auto
  with Cons.IH q(2) show ?case by auto
qed (simp add: exec_Nil)

end

end
