(* ===== verification/New_Blocks.thy ===== *)
theory New_Blocks
  imports Response_Channel
begin

section \<open>The pipeline behind subscribe\_new\_blocks\<close>

text \<open>
  A call of \<open>subscribe_new_blocks\<close> leaves three parties at work: the subscription task, which fills
  the update channel (\<open>Slot_Subscription\<close>); the task the handler spawned, which takes the updates and
  fills the response channel; and the consumer of the response. They meet in two channels of 100
  places. The state is the subscription, the \<open>await\<close> the forwarding task is suspended at, the response
  channel, and what the consumer took; an event is a step of one party.
\<close>

datatype forward_phase = Receiving | Sending stream_item | ForwardEnded "unit outcome"

record 'w pipe =
  sub :: "'w sub_state"
  forward :: forward_phase
  responses :: "stream_item list"
  taken :: "stream_item list"
  consumer_here :: bool

datatype pipe_event = Sub event | Take | Closed | Push | Consume | HangUp

definition RESPONSE_CAPACITY :: nat where
  "RESPONSE_CAPACITY = 100"

definition subscribe_new_blocks :: "('c, 'w) sub_env \<Rightarrow> 'w sys \<Rightarrow> 'w pipe" where
  "subscribe_new_blocks E s =
     \<lparr>sub = subscribe_slots E s, forward = Receiving, responses = [], taken = [], consumer_here = True\<rparr>"

subsection \<open>Steps\<close>

text \<open>The forwarding task ends, by its loop or by a panic; the subscription it owns is dropped.\<close>

definition end_forward :: "('c, 'w) sub_env \<Rightarrow> unit outcome \<Rightarrow> 'w pipe \<Rightarrow> 'w pipe option" where
  "end_forward E r p =
     map_option (\<lambda>s. p\<lparr>sub := s, forward := ForwardEnded r\<rparr>) (run E drop_subscription (sub p))"

definition handle_update ::
    "('c, 'w) sub_env \<Rightarrow> subscribe_new_blocks_request \<Rightarrow> slot_update \<Rightarrow> 'w pipe \<Rightarrow> 'w pipe option" where
  "handle_update E req u p =
     (case u of
        NewBlock b \<Rightarrow>
          if sint (sn_start_slot req) \<le> sint (as_i64 (blk_slot b)) then
            (case block_item (env_sdk E) (Inr b) of
               Inl e \<Rightarrow> end_forward E (Inl e) p
             | Inr item \<Rightarrow> Some (p\<lparr>forward := Sending item\<rparr>))
          else Some p
      | UpdateError e \<Rightarrow> Some (p\<lparr>forward := Sending (Inl (Status Internal (rpc_error_to_string e)))\<rparr>)
      | NewSlot _ \<Rightarrow> Some p)"

definition push_response :: "('c, 'w) sub_env \<Rightarrow> stream_item \<Rightarrow> 'w pipe \<Rightarrow> 'w pipe option" where
  "push_response E item p =
     (if \<not> consumer_here p then end_forward E (Inr ()) p
      else if length (responses p) < RESPONSE_CAPACITY
      then Some (p\<lparr>responses := responses p @ [item], forward := Receiving\<rparr>)
      else None)"

text \<open>How the tasks exit, and when that takes the process down.\<close>

definition forward_exit :: "'w pipe \<Rightarrow> task_exit option" where
  "forward_exit p =
     (case forward p of ForwardEnded r \<Rightarrow> Some (fst (end_task worker r (shared (sub p)))) | _ \<Rightarrow> None)"

definition process_aborted :: "'w pipe \<Rightarrow> bool" where
  "process_aborted p \<longleftrightarrow>
     map_option fst (subscription_exit worker (sub p)) = Some Aborted \<or> forward_exit p = Some Aborted"

fun has_finished :: "phase \<Rightarrow> bool" where
  "has_finished (Finished _) = True"
| "has_finished _ = False"

fun pipe_step ::
    "('c, 'w) sub_env \<Rightarrow> subscribe_new_blocks_request \<Rightarrow> pipe_event \<Rightarrow> 'w pipe \<Rightarrow> 'w pipe option" where
  "pipe_step E req (Sub ev) p =
     (if own_event ev \<or> ev = UnsubscribeAll
      then map_option (\<lambda>s. p\<lparr>sub := s\<rparr>) (react E ev (sub p)) else None)"
| "pipe_step E req Take p =
     (case (forward p, queue (sub p)) of
        (Receiving, u # _) \<Rightarrow>
          Option.bind (react E Recv (sub p)) (\<lambda>s. handle_update E req u (p\<lparr>sub := s\<rparr>))
      | _ \<Rightarrow> None)"
| "pipe_step E req Closed p =
     (if forward p = Receiving \<and> queue (sub p) = [] \<and> has_finished (phase (sub p))
      then end_forward E (Inr ()) p else None)"
| "pipe_step E req Push p = (case forward p of Sending item \<Rightarrow> push_response E item p | _ \<Rightarrow> None)"
| "pipe_step E req Consume p =
     (case responses p of
        x # xs \<Rightarrow> if consumer_here p then Some (p\<lparr>responses := xs, taken := taken p @ [x]\<rparr>) else None
      | [] \<Rightarrow> None)"
| "pipe_step E req HangUp p = Some (p\<lparr>consumer_here := False, responses := []\<rparr>)"

definition pipe_react ::
    "('c, 'w) sub_env \<Rightarrow> subscribe_new_blocks_request \<Rightarrow> pipe_event \<Rightarrow> 'w pipe \<Rightarrow> 'w pipe option" where
  "pipe_react E req ev p = (if process_aborted p then None else pipe_step E req ev p)"

fun pipe_run ::
    "('c, 'w) sub_env \<Rightarrow> subscribe_new_blocks_request \<Rightarrow> pipe_event list \<Rightarrow> 'w pipe \<Rightarrow> 'w pipe option" where
  "pipe_run E req [] p = Some p"
| "pipe_run E req (ev # evs) p = Option.bind (pipe_react E req ev p) (pipe_run E req evs)"

inductive pipe_reachable ::
    "('c, 'w) sub_env \<Rightarrow> subscribe_new_blocks_request \<Rightarrow> 'w sys \<Rightarrow> 'w pipe \<Rightarrow> bool"
  for E :: "('c, 'w) sub_env" and req :: subscribe_new_blocks_request and s0 :: "'w sys" where
  start: "pipe_reachable E req s0 (subscribe_new_blocks E s0)"
| step: "pipe_reachable E req s0 p \<Longrightarrow> pipe_react E req ev p = Some p' \<Longrightarrow> pipe_reachable E req s0 p'"

lemma pipe_reachable_run:
  "pipe_reachable E req s0 p \<Longrightarrow> pipe_run E req evs p = Some p' \<Longrightarrow> pipe_reachable E req s0 p'"
  by (induction evs arbitrary: p) (auto split: bind_splits intro: pipe_reachable.step)

lemma pipe_react_step: "pipe_react E req ev p = Some p' \<Longrightarrow> pipe_step E req ev p = Some p'"
  by (simp add: pipe_react_def split: if_splits)

lemma pipe_run_append: "pipe_run E req (xs @ ys) p = Option.bind (pipe_run E req xs p) (pipe_run E req ys)"
  by (induction xs arbitrary: p) (auto split: bind_splits)

lemma reachable_is_run:
  "pipe_reachable E req s0 p \<Longrightarrow> \<exists>evs. pipe_run E req evs (subscribe_new_blocks E s0) = Some p"
proof (induction rule: pipe_reachable.induct)
  case start
  show ?case by (rule exI [of _ "[]"]) simp
next
  case (step p ev p')
  then obtain evs where "pipe_run E req evs (subscribe_new_blocks E s0) = Some p" by blast
  with step.hyps(2) have "pipe_run E req (evs @ [ev]) (subscribe_new_blocks E s0) = Some p'"
    by (simp add: pipe_run_append)
  then show ?case by blast
qed

lemma process_aborted_iff:
  "process_aborted p \<longleftrightarrow> (\<exists>e. phase (sub p) = Crashed e) \<or> (\<exists>e. forward p = ForwardEnded (Inl e))"
  by (auto simp: process_aborted_def subscription_exit_def forward_exit_def
      split: phase.splits forward_phase.splits sum.splits)

subsection \<open>What a step does\<close>

text \<open>
  Every step of the pipeline is one of these: the forwarding task ends and drops the subscription,
  or it does not touch the subscription, or it receives an update, or the subscription steps.
\<close>

definition dropped_sub :: "'w sub_state \<Rightarrow> 'w sub_state" where
  "dropped_sub st = st\<lparr>cancelled := True, rx_open := False, queue := []\<rparr>"

lemma dropped_sub_simps [simp]:
  "phase (dropped_sub st) = phase st" "received (dropped_sub st) = received st"
  "queue (dropped_sub st) = []" "shared (dropped_sub st) = shared st"
  "cancelled (dropped_sub st)" "\<not> rx_open (dropped_sub st)"
  by (simp_all add: dropped_sub_def)

lemma run_drop: "run E drop_subscription st = Some (dropped_sub st)"
  by (simp add: drop_subscription_def dropped_sub_def)

lemma end_forward_eq: "end_forward E r p = Some (p\<lparr>sub := dropped_sub (sub p), forward := ForwardEnded r\<rparr>)"
  by (simp add: end_forward_def run_drop)

lemma reachable_drop: "reachable E s0 st \<Longrightarrow> reachable E s0 (dropped_sub st)"
  by (erule reachable_run) (rule run_drop)

lemma handle_update_emit:
  "handle_update E req u p =
     (case fst (update_emit (env_sdk E) (sn_start_slot req) u ()) of
        Inl e \<Rightarrow> Some (p\<lparr>sub := dropped_sub (sub p), forward := ForwardEnded (Inl e)\<rparr>)
      | Inr None \<Rightarrow> Some p
      | Inr (Some item) \<Rightarrow> Some (p\<lparr>forward := Sending item\<rparr>))"
  by (auto simp: handle_update_def update_emit_def end_forward_eq split: slot_update.split sum.split)

lemma handle_update_frame:
  "handle_update E req u p = Some p' \<Longrightarrow>
   consumer_here p' = consumer_here p \<and> taken p' = taken p \<and> responses p' = responses p"
  by (auto simp: handle_update_emit split: sum.splits option.splits)

lemma pipe_step_channel:
  assumes "pipe_step E req ev p = Some p'"
  shows "taken p' = taken p \<and> responses p' = responses p \<and> consumer_here p' = consumer_here p \<or>
    (\<exists>item. consumer_here p \<and> consumer_here p' \<and> length (responses p) < RESPONSE_CAPACITY \<and>
       responses p' = responses p @ [item] \<and> taken p' = taken p) \<or>
    (\<exists>item. consumer_here p \<and> consumer_here p' \<and> responses p = item # responses p' \<and> taken p' = taken p @ [item]) \<or>
    \<not> consumer_here p' \<and> responses p' = [] \<and> taken p' = taken p"
proof (cases ev)
  case Take
  with assms obtain q u where "handle_update E req u q = Some p'" "taken q = taken p" "responses q = responses p"
      "consumer_here q = consumer_here p"
    by (auto split: forward_phase.splits list.splits if_splits bind_splits)
  with handle_update_frame show ?thesis by fastforce
next
  case Push
  with assms show ?thesis
    by (auto simp: push_response_def end_forward_eq split: forward_phase.splits if_splits)
qed (use assms in \<open>auto simp: end_forward_eq split: if_splits list.splits\<close>)

interpretation new_blocks_channel: response_channel
  "pipe_react E req" "pipe_run E req" taken responses consumer_here RESPONSE_CAPACITY
  by unfold_locales (simp, simp, rule pipe_step_channel, erule pipe_react_step)

text \<open>An own step of the subscription receives nothing and leaves both ends of the channel as they are.\<close>

lemma own_frame:
  assumes "react E ev st = Some st'" and "own_event ev \<or> ev = UnsubscribeAll"
  shows "received st' = received st" "rx_open st' = rx_open st" "cancelled st' = cancelled st"
proof -
  have "received st' = received st \<and> rx_open st' = rx_open st \<and> cancelled st' = cancelled st"
  proof (cases ev)
    case Sent
    with assms show ?thesis
      by (cases "rx_open st") (auto simp: finish_send_open finish_send_closed split: phase.splits if_splits)
  qed (use assms in \<open>auto split: if_splits sum.splits option.splits phase.splits\<close>)
  then show "received st' = received st" "rx_open st' = rx_open st" "cancelled st' = cancelled st" by auto
qed

subsection \<open>The invariant\<close>

text \<open>
  \<open>emitted\<close> is what the forwarding loop, run over the updates received so far and never disturbed,
  sends. While the consumer is there the pipeline holds exactly that, spread over the consumer, the
  response channel and the item being sent; once it is gone, the consumer has a prefix of it.
\<close>

definition emitted :: "('c, 'w) sub_env \<Rightarrow> subscribe_new_blocks_request \<Rightarrow> slot_update list \<Rightarrow> stream_item list" where
  "emitted E req us = fst (emissions (update_emit (env_sdk E) (sn_start_slot req)) us ())"

definition emitted_result :: "('c, 'w) sub_env \<Rightarrow> subscribe_new_blocks_request \<Rightarrow> slot_update list \<Rightarrow> unit outcome" where
  "emitted_result E req us = snd (emissions (update_emit (env_sdk E) (sn_start_slot req)) us ())"

definition in_hand :: "'w pipe \<Rightarrow> stream_item list" where
  "in_hand p = (case forward p of Sending item \<Rightarrow> [item] | _ \<Rightarrow> [])"

definition forward_outcome :: "'w pipe \<Rightarrow> unit outcome" where
  "forward_outcome p = (case forward p of ForwardEnded r \<Rightarrow> r | _ \<Rightarrow> Inr ())"

definition pipe_inv ::
    "('c, 'w) sub_env \<Rightarrow> subscribe_new_blocks_request \<Rightarrow> 'w sys \<Rightarrow> 'w pipe \<Rightarrow> bool" where
  "pipe_inv E req s0 p \<longleftrightarrow>
     reachable E s0 (sub p) \<and>
     (if \<exists>r. forward p = ForwardEnded r then dropped (sub p) else rx_open (sub p) \<and> \<not> cancelled (sub p)) \<and>
     emitted_result E req (received (sub p)) = forward_outcome p \<and>
     (if consumer_here p then taken p @ responses p @ in_hand p = emitted E req (received (sub p))
      else responses p = [] \<and> prefix (taken p) (emitted E req (received (sub p))))"

lemma emitted_Nil [simp]: "emitted E req [] = []" "emitted_result E req [] = Inr ()"
  by (simp_all add: emitted_def emitted_result_def)

lemma emissions_snoc:
  "snd (emissions emit us ()) = Inr () \<Longrightarrow>
   emissions emit (us @ [u]) () =
     (case fst (emit u ()) of
        Inl e \<Rightarrow> (fst (emissions emit us ()), Inl e)
      | Inr None \<Rightarrow> (fst (emissions emit us ()), Inr ())
      | Inr (Some item) \<Rightarrow> (fst (emissions emit us ()) @ [item], Inr ()))"
  by (induction us) (auto split: prod.splits sum.splits option.splits)

lemma emitted_snoc:
  assumes "emitted_result E req us = Inr ()"
  shows "emitted E req (us @ [u]) = emitted E req us @
      (case fst (update_emit (env_sdk E) (sn_start_slot req) u ()) of Inr (Some item) \<Rightarrow> [item] | _ \<Rightarrow> [])"
    and "emitted_result E req (us @ [u]) =
      (case fst (update_emit (env_sdk E) (sn_start_slot req) u ()) of Inl e \<Rightarrow> Inl e | Inr _ \<Rightarrow> Inr ())"
  using emissions_snoc [OF assms [unfolded emitted_result_def], of u]
  by (auto simp: emitted_def emitted_result_def split: sum.split option.split)

lemma start_pipe_inv: "pipe_inv E req s (subscribe_new_blocks E s)"
  by (auto simp: pipe_inv_def subscribe_new_blocks_def subscribe_slots_def forward_outcome_def in_hand_def
      intro: reachable.start [of E s, unfolded subscribe_slots_def])

lemma taken_emitted:
  assumes "pipe_inv E req s0 p"
  shows "prefix (taken p) (emitted E req (received (sub p)))"
  using assms by (cases "consumer_here p") (auto simp: pipe_inv_def intro: prefixI [OF sym])

lemma take_step:
  assumes "pipe_step E req Take p = Some p'" and "pipe_inv E req s0 p"
  shows "\<exists>u us. queue (sub p) = u # us \<and> forward p = Receiving \<and>
    handle_update E req u (p\<lparr>sub := (sub p)\<lparr>queue := us, received := received (sub p) @ [u]\<rparr>\<rparr>) = Some p' \<and>
    reachable E s0 ((sub p)\<lparr>queue := us, received := received (sub p) @ [u]\<rparr>)"
proof -
  obtain u us where u: "queue (sub p) = u # us" "forward p = Receiving"
    using assms(1) by (auto split: forward_phase.splits list.splits)
  let ?st = "(sub p)\<lparr>queue := us, received := received (sub p) @ [u]\<rparr>"
  have r: "react E Recv (sub p) = Some ?st"
    using u assms(2) by (simp add: pipe_inv_def)
  then have "handle_update E req u (p\<lparr>sub := ?st\<rparr>) = Some p'" using assms(1) u by simp
  moreover have "reachable E s0 ?st" using assms(2) reachable.step [OF _ r] by (simp add: pipe_inv_def)
  ultimately show ?thesis using u by blast
qed

lemma take_pipe_inv:
  assumes "pipe_step E req Take p = Some p'" and "pipe_inv E req s0 p"
  shows "pipe_inv E req s0 p'"
proof -
  obtain u us where u: "queue (sub p) = u # us" "forward p = Receiving"
      "handle_update E req u (p\<lparr>sub := (sub p)\<lparr>queue := us, received := received (sub p) @ [u]\<rparr>\<rparr>) = Some p'"
      "reachable E s0 ((sub p)\<lparr>queue := us, received := received (sub p) @ [u]\<rparr>)"
    using take_step [OF assms] by blast
  have ok: "emitted_result E req (received (sub p)) = Inr ()"
    using assms(2) u(2) by (simp add: pipe_inv_def forward_outcome_def)
  note snoc = emitted_snoc [OF ok, of u]
  note dropped_reach = reachable_drop [OF u(4)]
  consider e where "fst (update_emit (env_sdk E) (sn_start_slot req) u ()) = Inl e"
    | "fst (update_emit (env_sdk E) (sn_start_slot req) u ()) = Inr None"
    | item where "fst (update_emit (env_sdk E) (sn_start_slot req) u ()) = Inr (Some item)"
    by (metis option.exhaust sum.exhaust)
  then show ?thesis
  proof cases
    case 1
    with u(3) have "p' = p\<lparr>sub := dropped_sub ((sub p)\<lparr>queue := us, received := received (sub p) @ [u]\<rparr>),
        forward := ForwardEnded (Inl e)\<rparr>" by (simp add: handle_update_emit)
    with 1 assms(2) u(2) snoc dropped_reach show ?thesis
      by (simp add: pipe_inv_def dropped_def forward_outcome_def in_hand_def cong: if_cong)
  next
    case 2
    with u(3) have "p' = p\<lparr>sub := (sub p)\<lparr>queue := us, received := received (sub p) @ [u]\<rparr>\<rparr>"
      by (simp add: handle_update_emit)
    with 2 assms(2) u(2,4) snoc show ?thesis by (simp add: pipe_inv_def forward_outcome_def in_hand_def cong: if_cong)
  next
    case 3
    with u(3) have "p' = p\<lparr>sub := (sub p)\<lparr>queue := us, received := received (sub p) @ [u]\<rparr>,
        forward := Sending item\<rparr>" by (simp add: handle_update_emit)
    with 3 assms(2) u(2,4) snoc show ?thesis
      by (auto simp: pipe_inv_def forward_outcome_def in_hand_def)
  qed
qed

lemma push_pipe_inv:
  assumes "pipe_step E req Push p = Some p'" and "pipe_inv E req s0 p"
  shows "pipe_inv E req s0 p'"
proof -
  obtain item where item: "forward p = Sending item" "push_response E item p = Some p'"
    using assms(1) by (auto split: forward_phase.splits)
  show ?thesis
  proof (cases "consumer_here p")
    case True
    with item have "p' = p\<lparr>responses := responses p @ [item], forward := Receiving\<rparr>"
        "length (responses p) < RESPONSE_CAPACITY"
      by (auto simp: push_response_def split: if_splits)
    with True item(1) assms(2) show ?thesis by (simp add: pipe_inv_def forward_outcome_def in_hand_def cong: if_cong)
  next
    case False
    with item have "p' = p\<lparr>sub := dropped_sub (sub p), forward := ForwardEnded (Inr ())\<rparr>"
      by (simp add: push_response_def end_forward_eq)
    with False item(1) assms(2) show ?thesis
      by (simp add: pipe_inv_def forward_outcome_def in_hand_def dropped_def reachable_drop cong: if_cong)
  qed
qed

lemma sub_pipe_inv:
  assumes "pipe_step E req (Sub ev) p = Some p'" and "pipe_inv E req s0 p"
  shows "pipe_inv E req s0 p'"
proof -
  obtain st where st: "react E ev (sub p) = Some st" "own_event ev \<or> ev = UnsubscribeAll" "p' = p\<lparr>sub := st\<rparr>"
    using assms(1) by (auto split: if_splits)
  have "reachable E s0 st" using assms(2) st(1) by (auto simp: pipe_inv_def intro: reachable.step)
  with assms(2) st(3) own_frame [OF st(1,2)] show ?thesis
    by (simp add: pipe_inv_def dropped_def forward_outcome_def in_hand_def cong: if_cong)
qed

lemma pipe_step_inv:
  assumes "pipe_step E req ev p = Some p'" and "pipe_inv E req s0 p"
  shows "pipe_inv E req s0 p'"
proof (cases ev)
  case (Sub e)
  with assms show ?thesis by (auto intro: sub_pipe_inv simp del: pipe_step.simps)
next
  case Take
  with assms show ?thesis by (auto intro: take_pipe_inv simp del: pipe_step.simps)
next
  case Closed
  with assms show ?thesis
    by (auto simp: end_forward_eq pipe_inv_def forward_outcome_def in_hand_def dropped_def reachable_drop
        split: if_splits)
next
  case Push
  with assms show ?thesis by (auto intro: push_pipe_inv simp del: pipe_step.simps)
next
  case Consume
  with assms show ?thesis
    by (auto simp: pipe_inv_def forward_outcome_def in_hand_def split: list.splits if_splits)
next
  case HangUp
  with assms have p': "p' = p\<lparr>consumer_here := False, responses := []\<rparr>" by simp
  have "prefix (taken p) (emitted E req (received (sub p)))"
    using assms(2) by (rule taken_emitted)
  with assms(2) show ?thesis by (simp add: p' pipe_inv_def forward_outcome_def)
qed

lemma reachable_pipe_inv: "pipe_reachable E req s0 p \<Longrightarrow> pipe_inv E req s0 p"
proof (induction rule: pipe_reachable.induct)
  case start
  show ?case by (rule start_pipe_inv)
next
  case (step p ev p')
  then show ?case by (blast intro: pipe_step_inv pipe_react_step)
qed

lemma responses_bounded: "pipe_reachable E req s0 p \<Longrightarrow> length (responses p) \<le> RESPONSE_CAPACITY"
  using reachable_is_run new_blocks_channel.exec_bounded [where p = "subscribe_new_blocks E s0" and p' = p]
  by (fastforce simp: subscribe_new_blocks_def)

text \<open>The items of the loop that runs undisturbed are those of the task of \<open>Service\<close>.\<close>

lemma emitted_subscribe_task:
  "emitted E req us = delivered (snd (subscribe_task (env_sdk E) req us \<lparr>delivered = [], hangs_up = None\<rparr>))"
  "emitted_result E req us = fst (subscribe_task (env_sdk E) req us \<lparr>delivered = [], hangs_up = None\<rparr>)"
proof -
  obtain r tx' where t: "forward_updates (env_sdk E) (sn_start_slot req) us \<lparr>delivered = [], hangs_up = None\<rparr> = (r, tx')"
    by fastforce
  show "emitted E req us = delivered (snd (subscribe_task (env_sdk E) req us \<lparr>delivered = [], hangs_up = None\<rparr>))"
    using forward_delivers [OF t] t by (simp add: emitted_def subscribe_task_def accepted_def)
  show "emitted_result E req us = fst (subscribe_task (env_sdk E) req us \<lparr>delivered = [], hangs_up = None\<rparr>)"
    using forward_result [of "\<lparr>delivered = [], hangs_up = None\<rparr>" "env_sdk E" "sn_start_slot req" us]
    by (simp add: emitted_result_def subscribe_task_def)
qed

lemma in_emitted: "item \<in> set (emitted E req us) \<Longrightarrow> \<exists>u \<in> set us. item_of_update (env_sdk E) (sn_start_slot req) u = Some item"
  using update_emissions_set [of "env_sdk E" "sn_start_slot req" us "()"] by (auto simp: emitted_def)

subsection \<open>Nobody waits for nothing\<close>

fun task_event :: "pipe_event \<Rightarrow> bool" where
  "task_event (Sub ev) = (own_event ev \<and> \<not> is_notify ev)"
| "task_event Take = True"
| "task_event Closed = True"
| "task_event Push = True"
| "task_event Consume = False"
| "task_event HangUp = False"

lemma open_progress:
  assumes "rx_open st" and "queue st = []" and "rank (phase st) \<noteq> 0" and "phase st \<noteq> Streaming"
  shows "\<exists>ev st'. own_event ev \<and> \<not> is_notify ev \<and> react E ev st = Some st'"
proof (cases "phase st")
  case Connecting
  then show ?thesis by (rule connecting_progress)
next
  case Subscribing
  then show ?thesis by (intro exI [of _ "Subscribe (Inr ())"]) simp
next
  case Sleeping
  then show ?thesis by (intro exI [of _ Wake]) simp
next
  case (FetchBlock slot)
  then show ?thesis by (intro exI [of _ Fetched]) simp
qed (use assms in \<open>auto simp: finish_send_open CHANNEL_CAPACITY_def intro!: exI [of _ Sent]\<close>)

lemma sub_progress:
  "\<not> process_aborted p \<Longrightarrow> \<exists>ev st'. own_event ev \<and> \<not> is_notify ev \<and> react E ev (sub p) = Some st' \<Longrightarrow>
   \<exists>ev p'. task_event ev \<and> pipe_react E req ev p = Some p'"
proof (elim exE conjE)
  fix ev st' assume *: "\<not> process_aborted p" "own_event ev" "\<not> is_notify ev" "react E ev (sub p) = Some st'"
  then have "task_event (Sub ev) \<and> pipe_react E req (Sub ev) p = Some (p\<lparr>sub := st'\<rparr>)"
    by (simp add: pipe_react_def)
  then show "\<exists>ev p'. task_event ev \<and> pipe_react E req ev p = Some p'" by blast
qed

lemma handle_update_total: "\<exists>p'. handle_update E req u p = Some p'"
  by (auto simp: handle_update_emit split: sum.split option.split)

lemma pipe_progress:
  assumes "pipe_inv E req s0 p" and "\<not> process_aborted p" and "length (responses p) \<le> RESPONSE_CAPACITY"
  shows "(\<exists>ev p'. task_event ev \<and> pipe_react E req ev p = Some p') \<or>
    forward p = Receiving \<and> phase (sub p) = Streaming \<and> queue (sub p) = [] \<or>
    (\<exists>item. forward p = Sending item) \<and> consumer_here p \<and> length (responses p) = RESPONSE_CAPACITY \<or>
    forward p = ForwardEnded (Inr ()) \<and> (\<exists>x. phase (sub p) = Finished x)"
proof (cases "forward p")
  case Receiving
  then have open': "rx_open (sub p)" using assms(1) by (simp add: pipe_inv_def)
  show ?thesis
  proof (cases "queue (sub p)")
    case (Cons u us)
    let ?p = "p\<lparr>sub := (sub p)\<lparr>queue := us, received := received (sub p) @ [u]\<rparr>\<rparr>"
    obtain p' where "handle_update E req u ?p = Some p'" using handle_update_total by blast
    then have "pipe_react E req Take p = Some p'"
      using Cons Receiving open' assms(2) by (simp add: pipe_react_def)
    then show ?thesis by (metis task_event.simps(2))
  next
    case Nil
    consider "rank (phase (sub p)) = 0" | "phase (sub p) = Streaming"
      | "rank (phase (sub p)) \<noteq> 0" "phase (sub p) \<noteq> Streaming" by blast
    then show ?thesis
    proof cases
      case 1
      then have "has_finished (phase (sub p))"
        using assms(2) by (auto simp: rank_0_iff process_aborted_iff)
      then have "pipe_react E req Closed p = Some (p\<lparr>sub := dropped_sub (sub p), forward := ForwardEnded (Inr ())\<rparr>)"
        using Nil Receiving assms(2) by (simp add: pipe_react_def end_forward_eq)
      then show ?thesis by (metis task_event.simps(3))
    next
      case 3
      from sub_progress [OF assms(2) open_progress [OF open' Nil 3]] show ?thesis by blast
    qed (use Nil Receiving in simp)
  qed
next
  case (Sending item)
  show ?thesis
  proof (cases "consumer_here p \<and> length (responses p) = RESPONSE_CAPACITY")
    case False
    with Sending assms have "\<exists>p'. pipe_react E req Push p = Some p'"
      by (auto simp: pipe_react_def push_response_def end_forward_eq pipe_inv_def)
    then show ?thesis by (metis task_event.simps(4))
  qed (use Sending in blast)
next
  case (ForwardEnded r)
  then have d: "dropped (sub p)" "r = Inr ()"
    using assms by (auto simp: pipe_inv_def process_aborted_iff) (metis obj_sumE old.unit.exhaust)
  show ?thesis
  proof (cases "rank (phase (sub p)) = 0")
    case True
    with ForwardEnded d(2) assms(2) show ?thesis by (auto simp: rank_0_iff process_aborted_iff)
  next
    case False
    from sub_progress [OF assms(2) dropped_progress [OF d(1) False]] show ?thesis by blast
  qed
qed

subsection \<open>After the consumer hung up\<close>

fun ended_well :: "forward_phase \<Rightarrow> bool" where
  "ended_well (ForwardEnded r) = (r = Inr ())"
| "ended_well _ = False"

lemma ended_stays:
  assumes "pipe_step E req ev p = Some p'" and "ended_well (forward p)"
  shows "forward p' = forward p \<and> ev \<noteq> Push"
  using assms by (cases ev; cases "forward p") (auto split: if_splits list.splits)

lemma gone_push:
  "pipe_step E req Push p = Some p' \<Longrightarrow> \<not> consumer_here p \<Longrightarrow> ended_well (forward p')"
  by (auto simp: push_response_def end_forward_eq split: forward_phase.splits)

lemma gone_run:
  assumes "pipe_run E req evs p = Some p'" and "\<not> consumer_here p" and "responses p = []"
  shows "length (filter (\<lambda>ev. ev = Push) evs) \<le> (if ended_well (forward p) then 0 else 1) \<and>
    (ended_well (forward p) \<or> Push \<in> set evs \<longrightarrow> ended_well (forward p'))"
  using assms
proof (induction evs arbitrary: p)
  case Nil
  then show ?case by simp
next
  case (Cons ev evs)
  then obtain q where q: "pipe_react E req ev p = Some q" "pipe_run E req evs q = Some p'"
    by (auto split: bind_splits)
  have step: "pipe_step E req ev p = Some q" by (rule pipe_react_step [OF q(1)])
  have "\<not> consumer_here q" "responses q = []"
    using new_blocks_channel.exec_gone [of E req "[ev]" p q] q(1) Cons.prems(2,3) by simp_all
  with Cons.IH [OF q(2)] gone_push [of E req p q] ended_stays [OF step] step Cons.prems(2)
  show ?case by (auto split: if_splits simp del: pipe_step.simps)
qed

subsection \<open>While the node notifies no root\<close>

fun calm_event :: "pipe_event \<Rightarrow> bool" where
  "calm_event (Sub ev) = undisturbed ev"
| "calm_event _ = True"

definition idle_inv :: "('c, 'w) sub_env \<Rightarrow> 'w pipe \<Rightarrow> bool" where
  "idle_inv E p \<longleftrightarrow> slots_only_inv E (sub p) \<and> forward p = Receiving \<and> responses p = [] \<and> taken p = []"

lemma running_not_finished: "running ph \<Longrightarrow> \<not> has_finished ph"
  by (cases ph) simp_all

lemma idle_step:
  assumes "pipe_step E req ev p = Some p'" and "calm_event ev" and "idle_inv E p"
  shows "idle_inv E p'"
proof (cases ev)
  case (Sub e)
  with assms obtain st where "react E e (sub p) = Some st" "p' = p\<lparr>sub := st\<rparr>"
    by (auto split: if_splits simp del: react.simps)
  with Sub assms(2,3) show ?thesis using react_slots_only_inv by (auto simp: idle_inv_def)
next
  case Take
  with assms(1) obtain u us where u: "queue (sub p) = u # us"
    by (auto split: forward_phase.splits list.splits)
  let ?st = "(sub p)\<lparr>queue := us, received := received (sub p) @ [u]\<rparr>"
  have inv: "slots_only_inv E (sub p)" "forward p = Receiving" using assms(3) by (simp_all add: idle_inv_def)
  with u have r: "react E Recv (sub p) = Some ?st" "is_slot u"
    by (simp_all add: slots_only_inv_def log_def)
  then obtain info where "u = NewSlot info" by (cases u) auto
  with u inv r Take assms(1) have "p' = p\<lparr>sub := ?st\<rparr>" by (simp add: handle_update_def)
  moreover have "slots_only_inv E ?st" using react_slots_only_inv [OF r(1) _ inv(1)] by simp
  ultimately show ?thesis using assms(3) by (simp add: idle_inv_def)
next
  case Closed
  with assms running_not_finished show ?thesis by (auto simp: idle_inv_def slots_only_inv_def split: if_splits)
qed (use assms in \<open>auto simp: idle_inv_def slots_only_inv_def\<close>)

lemma idle_run:
  "pipe_run E req evs p = Some p' \<Longrightarrow> list_all calm_event evs \<Longrightarrow> idle_inv E p \<Longrightarrow> idle_inv E p'"
  by (induction evs arbitrary: p) (auto split: bind_splits dest!: pipe_react_step intro: idle_step)

lemma start_idle: "ws_endpoints (env_client E) \<noteq> [] \<Longrightarrow> idle_inv E (subscribe_new_blocks E s)"
  using start_slots_only_inv [of E s] by (simp add: idle_inv_def subscribe_new_blocks_def)

subsection \<open>The subscription inside the pipeline\<close>

text \<open>A step of the pipeline is for the subscription a run of its own events, a receive and a drop.\<close>

lemma pipe_step_sub:
  assumes "pipe_step E req ev p = Some p'"
  shows "\<exists>es. run E es (sub p) = Some (sub p') \<and> set es \<subseteq> {e. ev = Sub e} \<union> {Recv, Cancel, DropRx}"
proof (cases ev)
  case (Sub e)
  with assms show ?thesis by (intro exI [of _ "[e]"]) (auto split: if_splits simp del: react.simps)
next
  case Take
  with assms obtain u st where u: "react E Recv (sub p) = Some st" "handle_update E req u (p\<lparr>sub := st\<rparr>) = Some p'"
    by (auto split: forward_phase.splits list.splits if_splits bind_splits)
  then have "sub p' = st \<or> sub p' = dropped_sub st"
    by (auto simp: handle_update_emit split: sum.splits option.splits)
  then have "run E [Recv] (sub p) = Some (sub p') \<or> run E (Recv # drop_subscription) (sub p) = Some (sub p')"
    using u(1) by (auto simp: run_drop simp del: react.simps)
  then show ?thesis
    by (elim disjE) (rule exI, erule conjI, simp add: drop_subscription_def)+
next
  case HangUp
  with assms show ?thesis by (intro exI [of _ "[]"]) auto
next
  case Consume
  with assms show ?thesis by (intro exI [of _ "[]"]) (auto split: list.splits if_splits)
next
  case Closed
  with assms show ?thesis
    by (intro exI [of _ drop_subscription])
       (auto simp: end_forward_def drop_subscription_def split: if_splits)
next
  case Push
  with assms have "run E [] (sub p) = Some (sub p') \<or> run E drop_subscription (sub p) = Some (sub p')"
    by (auto simp: push_response_def end_forward_eq run_drop split: forward_phase.splits if_splits)
  then show ?thesis
    by (elim disjE) (rule exI, erule conjI, simp add: drop_subscription_def)+
qed

fun unrooted_pipe :: "pipe_event \<Rightarrow> bool" where
  "unrooted_pipe (Sub ev) = unrooted ev"
| "unrooted_pipe _ = True"

lemma pipe_no_block:
  "pipe_run E req evs p = Some p' \<Longrightarrow> list_all unrooted_pipe evs \<Longrightarrow> no_block_inv (sub p) \<Longrightarrow> no_block_inv (sub p')"
proof (induction evs arbitrary: p)
  case (Cons ev evs)
  then obtain q where q: "pipe_step E req ev p = Some q" "pipe_run E req evs q = Some p'"
    by (auto split: bind_splits dest: pipe_react_step)
  obtain es where es: "run E es (sub p) = Some (sub q)" "set es \<subseteq> {e. ev = Sub e} \<union> {Recv, Cancel, DropRx}"
    using pipe_step_sub [OF q(1)] by blast
  have "list_all unrooted es" using es(2) Cons.prems(2) by (auto simp: list_all_iff)
  from run_no_block_inv [OF es(1) this] Cons q(2) show ?case by simp
qed simp

subsection \<open>A run of the demonstration pipeline\<close>

definition demo_pipe_events :: "pipe_event list" where
  "demo_pipe_events = map Sub demo_stream @ [Sub Sent, Take, Take, Push, Consume]"

lemma demo_item:
  "block_item demo_sdk (Inr demo_fetched) = Inr (Inr (block_data_of demo_sdk demo_fetched))"
proof -
  have "transaction_ok demo_sdk demo_tx" by simp
  then show ?thesis by (simp add: block_item_conv demo_fetched_def transaction_ok_def Let_def)
qed

lemma demo_pipe_run:
  "\<exists>p. pipe_run demo_env \<lparr>sn_start_slot = 40\<rparr> demo_pipe_events (subscribe_new_blocks demo_env (demo_sys 1 ())) = Some p \<and>
     taken p = [Inr (block_data_of demo_sdk demo_fetched)] \<and> consumer_here p \<and> forward p = Receiving"
proof -
  let ?s = "(demo_sys 1 ())\<lparr>active_subscriptions := {''slot-1''}\<rparr>"
  have "get_block Debug demo_sdk demo_api demo_client 42 ?s = (Inr (Inr demo_fetched), ?s)"
    by (rule demo_get_block)
  moreover have "sint (40 :: i64) \<le> sint (as_i64 (blk_slot demo_fetched))"
    by (simp add: demo_fetched_def as_i64_def sint_i64)
  ultimately show ?thesis
    by (simp add: demo_pipe_events_def demo_stream_def demo_slot_def subscribe_new_blocks_def subscribe_slots_def
        pipe_react_def process_aborted_iff finish_send_open CHANNEL_CAPACITY_def RESPONSE_CAPACITY_def fetch_def
        handle_update_def push_response_def demo_item)
qed

text \<open>A run that fetches a block with an index out of range.\<close>

definition short_env :: "(nat, unit) sub_env" where
  "short_env = demo_env\<lparr>env_profile := Release, env_sdk := short_sdk\<rparr>"

lemma short_env_simps [simp]:
  "env_profile short_env = Release" "env_sdk short_env = short_sdk" "env_api short_env = demo_api"
  "env_client short_env = demo_client" "env_id short_env = ''slot-1''"
  by (simp_all add: short_env_def)

lemma short_pipe_run:
  "\<exists>p. pipe_run short_env \<lparr>sn_start_slot = 40\<rparr> (map Sub demo_stream @ [Sub Sent, Take, Take])
      (subscribe_new_blocks short_env (demo_sys 1 ())) = Some p \<and> process_aborted p"
proof -
  let ?s = "(demo_sys 1 ())\<lparr>active_subscriptions := {''slot-1''}\<rparr>"
  have "get_block Release short_sdk demo_api demo_client 42 ?s = (Inr (Inr short_block), ?s)"
    by (rule short_get_block_with)
  moreover have "sint (40 :: i64) \<le> sint (as_i64 (blk_slot short_block))"
    by (simp add: short_block_def demo_fetched_def as_i64_def sint_i64)
  moreover have "block_item short_sdk (Inr short_block) = Inl IndexOutOfBounds"
    using short_block_bad by (simp add: block_item_conv)
  ultimately show ?thesis
    by (simp add: demo_stream_def demo_slot_def subscribe_new_blocks_def subscribe_slots_def
        pipe_react_def process_aborted_iff finish_send_open CHANNEL_CAPACITY_def fetch_def
        handle_update_def end_forward_eq)
qed

subsection \<open>Properties\<close>

text \<open>C5: The pipeline implements the forwarding loop exactly. Whatever the schedule of the node, the two
  tasks and the consumer: while the consumer stays, what it took, what waits in the response channel
  and the item being sent make up, in order, what the loop of \<open>subscribe_task\<close> sends for the updates
  received; a consumer that hung up holds a prefix of that. Both channels stay within 100 places,
  and the subscription is dropped exactly when the forwarding task has ended.\<close>

theorem pipeline_refines_forwarding:
  assumes "pipe_reachable E req s0 p"
  shows "(let sent = delivered (snd (subscribe_task (env_sdk E) req (received (sub p)) \<lparr>delivered = [], hangs_up = None\<rparr>))
     in if consumer_here p then taken p @ responses p @ in_hand p = sent else prefix (taken p) sent) \<and>
    length (responses p) \<le> 100 \<and> length (queue (sub p)) \<le> 100 \<and>
    (dropped (sub p) \<longleftrightarrow> (\<exists>r. forward p = ForwardEnded r))"
proof -
  have inv: "pipe_inv E req s0 p" by (rule reachable_pipe_inv [OF assms])
  then have "channel_inv (sub p)" by (auto simp: pipe_inv_def intro: reachable_channel_inv)
  with inv responses_bounded [OF assms] show ?thesis
    by (auto simp: pipe_inv_def channel_inv_def CHANNEL_CAPACITY_def RESPONSE_CAPACITY_def dropped_def Let_def
        simp flip: emitted_subscribe_task split: if_splits)
qed

theorem pipeline_refines_forwarding_witness:
  "\<exists>p. pipe_run demo_env \<lparr>sn_start_slot = 40\<rparr> demo_pipe_events (subscribe_new_blocks demo_env (demo_sys 1 ())) = Some p \<and>
     consumer_here p \<and>
     taken p @ responses p @ in_hand p = delivered (snd (subscribe_task demo_sdk \<lparr>sn_start_slot = 40\<rparr>
       (received (sub p)) \<lparr>delivered = [], hangs_up = None\<rparr>))"
proof -
  obtain p where p: "pipe_run demo_env \<lparr>sn_start_slot = 40\<rparr> demo_pipe_events
      (subscribe_new_blocks demo_env (demo_sys 1 ())) = Some p" "consumer_here p"
    using demo_pipe_run by blast
  from pipeline_refines_forwarding [OF pipe_reachable_run [OF pipe_reachable.start p(1)]] p
  show ?thesis by (auto simp: Let_def)
qed

text \<open>C6: The pipeline never gets stuck: unless the process aborted, one of the tasks can step without a
  further notification of the node (the answer to a call in progress counts as its step), or the subscription waits for the next notification with nothing to forward, or the
  forwarding task waits for a consumer that has 100 items to take, or both tasks have ended.\<close>

theorem pipeline_never_stuck:
  assumes "pipe_reachable E req s0 p" and "\<not> process_aborted p"
  shows "(\<exists>ev p'. task_event ev \<and> pipe_react E req ev p = Some p') \<or>
    forward p = Receiving \<and> phase (sub p) = Streaming \<and> queue (sub p) = [] \<or>
    (\<exists>item. forward p = Sending item) \<and> consumer_here p \<and> length (responses p) = 100 \<or>
    forward p = ForwardEnded (Inr ()) \<and> (\<exists>x. phase (sub p) = Finished x)"
  using pipe_progress [OF reachable_pipe_inv [OF assms(1)] assms(2) responses_bounded [OF assms(1)]] by (simp add: RESPONSE_CAPACITY_def)

theorem pipeline_never_stuck_witness:
  "\<exists>ev p'. task_event ev \<and>
     pipe_react demo_env \<lparr>sn_start_slot = 40\<rparr> ev (subscribe_new_blocks demo_env (demo_sys 1 ())) = Some p'"
  using pipeline_never_stuck [OF pipe_reachable.start, of demo_env "demo_sys 1 ()" "\<lparr>sn_start_slot = 40\<rparr>"]
  by (auto simp: process_aborted_iff subscribe_new_blocks_def subscribe_slots_def)

text \<open>C32: With WebSocket endpoints, a call of \<open>subscribe_new_blocks\<close> takes the process down for two reasons
  only. In a build with overflow checks, the subscription task panicked on the totals of a block that an
  endpoint gave; or the forwarding task panicked on an index out of range in a block of the start slot
  or later that it received, and that was made of a block an endpoint gave.\<close>

theorem pipeline_aborts_only_on:
  assumes "env_ok E" and "sys_ok (sc_client (env_client E)) s0" and "pipe_reachable E req s0 p"
    and "process_aborted p"
  shows "(phase (sub p) = Crashed ArithmeticOverflow \<and> env_profile E = Debug \<and>
      (\<exists>slot b. gave_block (env_api E) (env_client E) slot b \<and> totals_overflow b)) \<or>
    (forward p = ForwardEnded (Inl IndexOutOfBounds) \<and>
      (\<exists>b. NewBlock b \<in> set (received (sub p)) \<and> given_block E b \<and>
         sint (sn_start_slot req) \<le> sint (as_i64 (blk_slot b)) \<and>
         \<not> list_all (transaction_ok (env_sdk E)) (blk_transactions b)))"
proof -
  have inv: "pipe_inv E req s0 p" by (rule reachable_pipe_inv [OF assms(3)])
  then have sub: "cursor_inv E (sub p)" "given_inv E (sub p)"
    using reachable_cursor_inv [OF assms(1,2)] reachable_given_inv [OF assms(1,2)] by (simp_all add: pipe_inv_def)
  from assms(4) consider e where "phase (sub p) = Crashed e" | e where "forward p = ForwardEnded (Inl e)"
    by (auto simp: process_aborted_iff)
  then show ?thesis
  proof cases
    case 1
    with sub(1) show ?thesis by (auto simp: cursor_inv_def overflow_crash_def)
  next
    case 2
    with inv have "emitted_result E req (received (sub p)) = Inl e" by (simp add: pipe_inv_def forward_outcome_def)
    from update_emissions_Inl [OF this [unfolded emitted_result_def]] 2 sub(2) show ?thesis
      by (auto simp: given_inv_def log_def)
  qed
qed

theorem pipeline_aborts_only_on_witness:
  "\<exists>p b. pipe_run short_env \<lparr>sn_start_slot = 40\<rparr> (map Sub demo_stream @ [Sub Sent, Take, Take])
       (subscribe_new_blocks short_env (demo_sys 1 ())) = Some p \<and> process_aborted p \<and>
     NewBlock b \<in> set (received (sub p)) \<and> \<not> list_all (transaction_ok short_sdk) (blk_transactions b)"
proof -
  obtain p where p: "pipe_run short_env \<lparr>sn_start_slot = 40\<rparr> (map Sub demo_stream @ [Sub Sent, Take, Take])
      (subscribe_new_blocks short_env (demo_sys 1 ())) = Some p" "process_aborted p"
    using short_pipe_run by blast
  have "env_ok short_env" "sys_ok (sc_client (env_client short_env)) (demo_sys 1 ())"
    using demo_env_ok by (simp_all add: env_ok_def)
  from pipeline_aborts_only_on [OF this pipe_reachable_run [OF pipe_reachable.start p(1)] p(2)] p show ?thesis by auto
qed

text \<open>C31: Once the consumer is gone, the forwarding task sends at most once more; that send fails, ends
  the task and drops the subscription, and the consumer gets nothing more.\<close>

theorem gone_consumer_ends_pipeline:
  assumes "pipe_reachable E req s0 p" and "\<not> consumer_here p" and "pipe_run E req evs p = Some p'"
  shows "taken p' = taken p \<and> length (filter (\<lambda>ev. ev = Push) evs) \<le> 1 \<and>
    (Push \<in> set evs \<longrightarrow> forward p' = ForwardEnded (Inr ()) \<and> dropped (sub p'))"
proof -
  have inv: "pipe_inv E req s0 p" "pipe_inv E req s0 p'"
    using assms(1,3) by (auto intro: reachable_pipe_inv pipe_reachable_run)
  have gone: "responses p = []" using inv(1) assms(2) by (simp add: pipe_inv_def)
  have "taken p' = taken p" using new_blocks_channel.exec_gone [OF assms(3,2) gone] by simp
  moreover have "length (filter (\<lambda>ev. ev = Push) evs) \<le> 1" "Push \<in> set evs \<longrightarrow> ended_well (forward p')"
    using gone_run [OF assms(3,2) gone] by (auto split: if_splits)
  ultimately show ?thesis using inv(2) by (cases "forward p'") (auto simp: pipe_inv_def)
qed

theorem gone_consumer_ends_pipeline_witness:
  "\<exists>p p'. pipe_run demo_env \<lparr>sn_start_slot = 40\<rparr> [HangUp, Sub (Connect (Inl ''refused'')), Sub Sent, Take]
       (subscribe_new_blocks demo_env (demo_sys 1 ())) = Some p \<and>
     pipe_run demo_env \<lparr>sn_start_slot = 40\<rparr> [Push] p = Some p' \<and> dropped (sub p')"
proof -
  let ?p = "subscribe_new_blocks demo_env (demo_sys 1 ())"
  obtain p p' where p: "pipe_run demo_env \<lparr>sn_start_slot = 40\<rparr>
      [HangUp, Sub (Connect (Inl ''refused'')), Sub Sent, Take] ?p = Some p" "\<not> consumer_here p"
      "pipe_run demo_env \<lparr>sn_start_slot = 40\<rparr> [Push] p = Some p'"
    by (simp add: subscribe_new_blocks_def subscribe_slots_def pipe_react_def process_aborted_iff
        finish_send_open CHANNEL_CAPACITY_def reconnect_def handle_reconnect_def mul_u64_def
        connect_error_def handle_update_def push_response_def end_forward_eq)
  from gone_consumer_ends_pipeline [OF pipe_reachable_run [OF pipe_reachable.start p(1)] p(2,3)] p
  show ?thesis by auto
qed

end
