(* ===== verification/Block_Ranges.thy ===== *)
theory Block_Ranges
  imports Response_Channel
begin

section \<open>The pipeline behind get\_block\_range\<close>

text \<open>
  An accepted call of \<open>get_block_range\<close> leaves a task and a consumer at work, with a channel of 100
  places between them. The task is suspended while it lists the slots, while it fetches a block, and
  while it sends; the state is that \<open>await\<close>, the shared state, the channel, and what the consumer took.
\<close>

datatype range_phase =
    Listing
  | Fetching "u64 list"
  | SendingItem stream_item "u64 list option"
  | RangeEnded "unit outcome"

record 'w range_pipe =
  rg_phase :: range_phase
  rg_shared :: "'w sys"
  rg_responses :: "stream_item list"
  rg_taken :: "stream_item list"
  rg_consumer_here :: bool

datatype range_event = Advance | Deliver | TakeItem | Leave

definition RANGE_CAPACITY :: nat where
  "RANGE_CAPACITY = 100"

definition start_range :: "'w sys \<Rightarrow> 'w range_pipe" where
  "start_range s =
     \<lparr>rg_phase = Listing, rg_shared = s, rg_responses = [], rg_taken = [], rg_consumer_here = True\<rparr>"

subsection \<open>Steps\<close>

text \<open>\<open>None\<close> in \<open>SendingItem\<close>: the send is the last thing the task does.\<close>

definition list_slots :: "('c, 'w) sub_env \<Rightarrow> get_block_range_request \<Rightarrow> 'w range_pipe \<Rightarrow> 'w range_pipe" where
  "list_slots E req p =
     (case get_blocks (env_profile E) (env_api E) (env_client E) (as_u64 (gr_start_slot req))
             (Some (as_u64 (gr_end_slot req))) (rg_shared p) of
        (Inl e, s') \<Rightarrow> p\<lparr>rg_phase := RangeEnded (Inl e), rg_shared := s'\<rparr>
      | (Inr (Inl e), s') \<Rightarrow>
          p\<lparr>rg_phase := SendingItem
              (Inl (Status Internal (''Failed to get block range: '' @ rpc_error_to_string e))) None,
            rg_shared := s'\<rparr>
      | (Inr (Inr slots), s') \<Rightarrow> p\<lparr>rg_phase := Fetching slots, rg_shared := s'\<rparr>)"

definition fetch_slot :: "('c, 'w) sub_env \<Rightarrow> u64 \<Rightarrow> u64 list \<Rightarrow> 'w range_pipe \<Rightarrow> 'w range_pipe" where
  "fetch_slot E slot slots p =
     (case get_block (env_profile E) (env_sdk E) (env_api E) (env_client E) slot (rg_shared p) of
        (Inl e, s') \<Rightarrow> p\<lparr>rg_phase := RangeEnded (Inl e), rg_shared := s'\<rparr>
      | (Inr r, s') \<Rightarrow>
          (case block_item (env_sdk E) r of
             Inl e \<Rightarrow> p\<lparr>rg_phase := RangeEnded (Inl e), rg_shared := s'\<rparr>
           | Inr item \<Rightarrow> p\<lparr>rg_phase := SendingItem item (Some slots), rg_shared := s'\<rparr>))"

definition deliver_item :: "stream_item \<Rightarrow> u64 list option \<Rightarrow> 'w range_pipe \<Rightarrow> 'w range_pipe option" where
  "deliver_item item rest p =
     (if \<not> rg_consumer_here p then Some (p\<lparr>rg_phase := RangeEnded (Inr ())\<rparr>)
      else if length (rg_responses p) < RANGE_CAPACITY then
        Some (p\<lparr>rg_responses := rg_responses p @ [item],
          rg_phase := (case rest of Some slots \<Rightarrow> Fetching slots | None \<Rightarrow> RangeEnded (Inr ()))\<rparr>)
      else None)"

definition range_exit :: "'w range_pipe \<Rightarrow> task_exit option" where
  "range_exit p =
     (case rg_phase p of RangeEnded r \<Rightarrow> Some (fst (end_task worker r (rg_shared p))) | _ \<Rightarrow> None)"

fun range_step ::
    "('c, 'w) sub_env \<Rightarrow> get_block_range_request \<Rightarrow> range_event \<Rightarrow> 'w range_pipe \<Rightarrow> 'w range_pipe option" where
  "range_step E req Advance p =
     (case rg_phase p of
        Listing \<Rightarrow> Some (list_slots E req p)
      | Fetching [] \<Rightarrow> Some (p\<lparr>rg_phase := RangeEnded (Inr ())\<rparr>)
      | Fetching (slot # slots) \<Rightarrow> Some (fetch_slot E slot slots p)
      | _ \<Rightarrow> None)"
| "range_step E req Deliver p =
     (case rg_phase p of SendingItem item rest \<Rightarrow> deliver_item item rest p | _ \<Rightarrow> None)"
| "range_step E req TakeItem p =
     (case rg_responses p of
        x # xs \<Rightarrow> if rg_consumer_here p
                  then Some (p\<lparr>rg_responses := xs, rg_taken := rg_taken p @ [x]\<rparr>) else None
      | [] \<Rightarrow> None)"
| "range_step E req Leave p = Some (p\<lparr>rg_consumer_here := False, rg_responses := []\<rparr>)"

definition range_react ::
    "('c, 'w) sub_env \<Rightarrow> get_block_range_request \<Rightarrow> range_event \<Rightarrow> 'w range_pipe \<Rightarrow> 'w range_pipe option" where
  "range_react E req ev p = (if range_exit p = Some Aborted then None else range_step E req ev p)"

fun range_run ::
    "('c, 'w) sub_env \<Rightarrow> get_block_range_request \<Rightarrow> range_event list \<Rightarrow> 'w range_pipe \<Rightarrow> 'w range_pipe option" where
  "range_run E req [] p = Some p"
| "range_run E req (ev # evs) p = Option.bind (range_react E req ev p) (range_run E req evs)"

lemma range_react_step: "range_react E req ev p = Some p' \<Longrightarrow> range_step E req ev p = Some p'"
  by (simp add: range_react_def split: if_splits)

lemma range_exit_aborted: "range_exit p = Some Aborted \<longleftrightarrow> (\<exists>e. rg_phase p = RangeEnded (Inl e))"
  by (auto simp: range_exit_def split: range_phase.split sum.split)

lemma list_slots_frame [simp]:
  "rg_responses (list_slots E req p) = rg_responses p" "rg_taken (list_slots E req p) = rg_taken p"
  "rg_consumer_here (list_slots E req p) = rg_consumer_here p"
  by (auto simp: list_slots_def split: prod.split sum.split)

lemma fetch_slot_frame [simp]:
  "rg_responses (fetch_slot E slot slots p) = rg_responses p" "rg_taken (fetch_slot E slot slots p) = rg_taken p"
  "rg_consumer_here (fetch_slot E slot slots p) = rg_consumer_here p"
  by (auto simp: fetch_slot_def split: prod.split sum.split)

lemma range_step_channel:
  assumes "range_step E req ev p = Some p'"
  shows "rg_taken p' = rg_taken p \<and> rg_responses p' = rg_responses p \<and> rg_consumer_here p' = rg_consumer_here p \<or>
    (\<exists>item. rg_consumer_here p \<and> rg_consumer_here p' \<and> length (rg_responses p) < RANGE_CAPACITY \<and>
       rg_responses p' = rg_responses p @ [item] \<and> rg_taken p' = rg_taken p) \<or>
    (\<exists>item. rg_consumer_here p \<and> rg_consumer_here p' \<and> rg_responses p = item # rg_responses p' \<and>
       rg_taken p' = rg_taken p @ [item]) \<or>
    \<not> rg_consumer_here p' \<and> rg_responses p' = [] \<and> rg_taken p' = rg_taken p"
  using assms
  by (cases ev) (auto simp: deliver_item_def split: range_phase.splits list.splits if_splits)

interpretation range_channel: response_channel
  "range_react E req" "range_run E req" rg_taken rg_responses rg_consumer_here RANGE_CAPACITY
  by unfold_locales (simp, simp, rule range_step_channel, erule range_react_step)

lemma range_bounded:
  "range_run E req evs (start_range s) = Some p \<Longrightarrow> length (rg_responses p) \<le> RANGE_CAPACITY"
  by (erule range_channel.exec_bounded) (simp add: start_range_def)

subsection \<open>What is still to come\<close>

text \<open>
  The items the task has still to send when nobody hangs up, and how it will end, from each phase;
  at the start they are those of the sequential \<open>range_task\<close>.
\<close>

definition slot_items ::
    "('c, 'w) sub_env \<Rightarrow> u64 list \<Rightarrow> 'w sys \<Rightarrow> stream_item list \<times> unit outcome" where
  "slot_items E = emissions (slot_emit (env_profile E) (env_sdk E) (env_api E) (env_client E))"

definition range_items ::
    "('c, 'w) sub_env \<Rightarrow> get_block_range_request \<Rightarrow> 'w sys \<Rightarrow> stream_item list \<times> unit outcome" where
  "range_items E req s =
     (case range_task (env_profile E) (env_sdk E) (env_api E) (env_client E) req
             (s, \<lparr>delivered = [], hangs_up = None\<rparr>) of
        (r, _, tx) \<Rightarrow> (delivered tx, r))"

definition to_come ::
    "('c, 'w) sub_env \<Rightarrow> get_block_range_request \<Rightarrow> 'w range_pipe \<Rightarrow> stream_item list \<times> unit outcome" where
  "to_come E req p =
     (case rg_phase p of
        Listing \<Rightarrow> range_items E req (rg_shared p)
      | Fetching slots \<Rightarrow> slot_items E slots (rg_shared p)
      | SendingItem item None \<Rightarrow> ([item], Inr ())
      | SendingItem item (Some slots) \<Rightarrow> apfst ((#) item) (slot_items E slots (rg_shared p))
      | RangeEnded r \<Rightarrow> ([], r))"

lemma stream_slots_items:
  "(case stream_slots (env_profile E) (env_sdk E) (env_api E) (env_client E) slots
      (s, \<lparr>delivered = [], hangs_up = None\<rparr>) of (r, _, tx) \<Rightarrow> (delivered tx, r)) = slot_items E slots s"
proof -
  let ?tx = "\<lparr>delivered = [], hangs_up = None\<rparr>"
  obtain r s' tx where t: "stream_slots (env_profile E) (env_sdk E) (env_api E) (env_client E) slots (s, ?tx) = (r, s', tx)"
    by (metis prod_cases3)
  have "delivered tx = fst (slot_items E slots s)"
    using range_stream.loop_delivers [OF t] by (simp add: slot_items_def accepted_def)
  moreover have "r = snd (slot_items E slots s)"
    using range_stream.loop_result [of ?tx "env_profile E" "env_sdk E" "env_api E" "env_client E" slots s] t
    by (simp add: slot_items_def)
  ultimately show ?thesis by (simp add: t)
qed

lemma to_come_take [simp]:
  "to_come E req (p\<lparr>rg_responses := xs, rg_taken := ys\<rparr>) = to_come E req p"
  by (auto simp: to_come_def split: range_phase.split option.split)

lemma list_slots_to_come:
  "rg_phase p = Listing \<Longrightarrow> to_come E req (list_slots E req p) = to_come E req p"
  by (auto simp: to_come_def list_slots_def range_items_def range_task_def tx_send_def
      simp flip: stream_slots_items split: prod.split sum.split)

lemma fetch_slot_to_come:
  "rg_phase p = Fetching (slot # slots) \<Longrightarrow> to_come E req (fetch_slot E slot slots p) = to_come E req p"
  by (auto simp: to_come_def fetch_slot_def slot_items_def slot_emit_def split: prod.split sum.split)

definition range_inv ::
    "('c, 'w) sub_env \<Rightarrow> get_block_range_request \<Rightarrow> stream_item list \<times> unit outcome \<Rightarrow> 'w range_pipe \<Rightarrow> bool" where
  "range_inv E req whole p \<longleftrightarrow>
     (if rg_consumer_here p
      then (rg_taken p @ rg_responses p @ fst (to_come E req p), snd (to_come E req p)) = whole
      else rg_responses p = [] \<and> prefix (rg_taken p) (fst whole))"

lemma advance_inv:
  assumes "range_step E req Advance p = Some p'" and "range_inv E req whole p"
  shows "range_inv E req whole p'"
proof -
  have same: "to_come E req p' = to_come E req p \<and> rg_responses p' = rg_responses p \<and>
      rg_taken p' = rg_taken p \<and> rg_consumer_here p' = rg_consumer_here p"
    using assms(1) list_slots_to_come fetch_slot_to_come
    by (auto split: range_phase.splits list.splits) (simp add: to_come_def slot_items_def)
  with assms(2) show ?thesis by (simp add: range_inv_def)
qed

lemma range_step_inv:
  assumes "range_step E req ev p = Some p'" and "range_inv E req whole p"
  shows "range_inv E req whole p'"
proof (cases ev)
  case Advance
  with assms advance_inv show ?thesis by blast
next
  case Deliver
  then obtain item rest where "rg_phase p = SendingItem item rest" "deliver_item item rest p = Some p'"
    using assms(1) by (auto split: range_phase.splits)
  with assms(2) show ?thesis
    by (cases rest) (auto simp: range_inv_def deliver_item_def to_come_def apfst_def map_prod_def
        split: if_splits prod.splits)
next
  case TakeItem
  with assms show ?thesis by (auto simp: range_inv_def split: list.splits if_splits)
next
  case Leave
  with assms(1) have p': "p' = p\<lparr>rg_consumer_here := False, rg_responses := []\<rparr>" by simp
  have "prefix (rg_taken p) (fst whole)"
    using assms(2) by (cases "rg_consumer_here p") (auto simp: range_inv_def)
  then show ?thesis by (simp add: p' range_inv_def)
qed

lemma range_run_inv:
  "range_run E req evs p = Some p' \<Longrightarrow> range_inv E req whole p \<Longrightarrow> range_inv E req whole p'"
  by (induction evs arbitrary: p) (auto split: bind_splits dest!: range_react_step intro: range_step_inv)

lemma start_range_inv: "range_inv E req (range_items E req s) (start_range s)"
  by (simp add: range_inv_def start_range_def to_come_def)

subsection \<open>The task ends\<close>

fun task_step :: "range_event \<Rightarrow> bool" where
  "task_step Advance = True"
| "task_step Deliver = True"
| "task_step _ = False"

definition listed :: "('c, 'w) sub_env \<Rightarrow> get_block_range_request \<Rightarrow> 'w sys \<Rightarrow> u64 list" where
  "listed E req s =
     (case fst (get_blocks (env_profile E) (env_api E) (env_client E) (as_u64 (gr_start_slot req))
             (Some (as_u64 (gr_end_slot req))) s) of
        Inr (Inr slots) \<Rightarrow> slots | _ \<Rightarrow> [])"

definition steps_left :: "('c, 'w) sub_env \<Rightarrow> get_block_range_request \<Rightarrow> 'w range_pipe \<Rightarrow> nat" where
  "steps_left E req p =
     (case rg_phase p of
        Listing \<Rightarrow> 2 * length (listed E req (rg_shared p)) + 2
      | Fetching slots \<Rightarrow> 2 * length slots + 1
      | SendingItem item (Some slots) \<Rightarrow> 2 * length slots + 2
      | SendingItem item None \<Rightarrow> 1
      | RangeEnded r \<Rightarrow> 0)"

lemma list_slots_steps:
  assumes "rg_phase p = Listing"
  shows "steps_left E req (list_slots E req p) < steps_left E req p"
proof -
  obtain r s' where g: "get_blocks (env_profile E) (env_api E) (env_client E) (as_u64 (gr_start_slot req))
      (Some (as_u64 (gr_end_slot req))) (rg_shared p) = (r, s')" by fastforce
  consider e where "r = Inl e" | e where "r = Inr (Inl e)" | slots where "r = Inr (Inr slots)"
    by (metis sum.exhaust)
  then show ?thesis
    by cases (simp_all add: steps_left_def list_slots_def listed_def assms g)
qed

lemma fetch_slot_steps:
  assumes "rg_phase p = Fetching (slot # slots)"
  shows "steps_left E req (fetch_slot E slot slots p) < steps_left E req p"
  using assms by (auto simp: steps_left_def fetch_slot_def split: prod.split sum.split)

lemma task_step_decreases:
  assumes "range_step E req ev p = Some p'" and "task_step ev"
  shows "steps_left E req p' < steps_left E req p"
proof (cases ev)
  case Advance
  with assms(1) list_slots_steps fetch_slot_steps show ?thesis
    by (auto split: range_phase.splits list.splits) (simp add: steps_left_def)
next
  case Deliver
  with assms(1) show ?thesis
    by (auto simp: steps_left_def deliver_item_def split: range_phase.splits option.splits if_splits)
qed (use assms(2) in simp_all)

lemma consumer_step_keeps:
  "range_step E req ev p = Some p' \<Longrightarrow> \<not> task_step ev \<Longrightarrow> steps_left E req p' = steps_left E req p"
  by (cases ev)
     (auto simp: steps_left_def split: range_phase.split option.split list.splits if_splits)

lemma range_run_steps:
  "range_run E req evs p = Some p' \<Longrightarrow>
   length (filter task_step evs) + steps_left E req p' \<le> steps_left E req p"
proof (induction evs arbitrary: p)
  case (Cons ev evs)
  then obtain q where q: "range_step E req ev p = Some q" "range_run E req evs q = Some p'"
    by (auto split: bind_splits dest: range_react_step)
  with Cons.IH [OF q(2)] task_step_decreases [OF q(1)] consumer_step_keeps [OF q(1)] show ?case
    by (cases "task_step ev") auto
qed simp

lemma range_progress:
  assumes "length (rg_responses p) \<le> RANGE_CAPACITY" and "\<And>r. rg_phase p \<noteq> RangeEnded r"
  shows "(\<exists>ev p'. task_step ev \<and> range_react E req ev p = Some p') \<or>
    rg_consumer_here p \<and> length (rg_responses p) = RANGE_CAPACITY"
proof -
  have r: "range_react E req ev p = range_step E req ev p" for ev
    using assms(2) range_exit_aborted [of p] by (simp add: range_react_def)
  show ?thesis
  proof (cases "rg_phase p")
    case Listing
    then have "range_react E req Advance p = Some (list_slots E req p)" by (simp add: r)
    then show ?thesis by (metis task_step.simps(1))
  next
    case (Fetching slots)
    then have "\<exists>p'. range_react E req Advance p = Some p'" by (cases slots) (simp_all add: r)
    then show ?thesis by (metis task_step.simps(1))
  next
    case (SendingItem item rest)
    with assms(1) have "rg_consumer_here p \<and> length (rg_responses p) = RANGE_CAPACITY \<or>
        (\<exists>p'. range_react E req Deliver p = Some p')"
      by (auto simp: r deliver_item_def)
    then show ?thesis by (metis task_step.simps(2))
  qed (use assms(2) in simp)
qed

subsection \<open>A run on the demonstration node\<close>

definition demo_range :: get_block_range_request where
  "demo_range = \<lparr>gr_start_slot = 42, gr_end_slot = 50\<rparr>"

lemma demo_slots:
  "get_blocks Debug demo_api demo_client (as_u64 (gr_start_slot demo_range)) (Some (as_u64 (gr_end_slot demo_range)))
     (demo_sys 1 ()) = (Inr (Inr [42]), demo_sys 1 ())"
  by (simp only: demo_range_def get_block_range_request.simps as_u64_def ucast_id, rule demo_get_blocks)

lemma demo_range_run:
  "\<exists>p. range_run demo_env demo_range [Advance, Advance, Deliver, TakeItem] (start_range (demo_sys 1 ())) = Some p \<and>
     rg_consumer_here p \<and> length (rg_taken p) = 1"
proof -
  let ?s = "demo_sys 1 ()"
  have e: "(demo_sys 1 ())\<lparr>active_subscriptions := {}\<rparr> = ?s" by (simp add: demo_sys_def)
  have b: "get_block Debug demo_sdk demo_api demo_client 42 ?s = (Inr (Inr demo_fetched), ?s)"
    using demo_get_block [of "{}"] unfolding e .
  show ?thesis
  proof (rule exI, intro conjI)
    let ?item = "Inr (block_data_of demo_sdk demo_fetched)"
    have "list_all (transaction_ok demo_sdk) (blk_transactions demo_fetched)"
      using demo_tx_ok by (simp add: demo_fetched_def transaction_ok_def Let_def)
    then have i: "block_item demo_sdk (Inr demo_fetched) = Inr ?item" by (simp add: block_item_conv)
    let ?p1 = "(start_range ?s)\<lparr>rg_phase := Fetching [42]\<rparr>"
    let ?p2 = "(start_range ?s)\<lparr>rg_phase := SendingItem ?item (Some [])\<rparr>"
    have "range_react demo_env demo_range Advance (start_range ?s) = Some ?p1"
      using demo_slots by (simp add: range_react_def range_exit_def start_range_def list_slots_def del: One_nat_def)
    moreover have "range_react demo_env demo_range Advance ?p1 = Some ?p2"
      using b i by (simp add: range_react_def range_exit_def start_range_def fetch_slot_def del: One_nat_def)
    moreover have "range_run demo_env demo_range [Deliver, TakeItem] ?p2 =
        Some ((start_range ?s)\<lparr>rg_phase := Fetching [], rg_taken := [?item]\<rparr>)"
      by (simp add: range_react_def range_exit_def start_range_def deliver_item_def RANGE_CAPACITY_def)
    ultimately show "range_run demo_env demo_range [Advance, Advance, Deliver, TakeItem] (start_range ?s) =
        Some ((start_range ?s)\<lparr>rg_phase := Fetching [], rg_taken := [?item]\<rparr>)"
      by (simp del: range_step.simps)
  qed (simp_all add: start_range_def)
qed

subsection \<open>Properties\<close>

text \<open>C14: The pipeline of \<open>get_block_range\<close> implements the sequential task under every schedule: while the
  consumer stays, what it took and what waits for it is a prefix of what \<open>range_task\<close> delivers, all of
  it once the task has ended, and the task ends as \<open>range_task\<close> does; a consumer that left has a
  prefix. The channel never holds more than 100 items.\<close>

theorem range_pipeline_refines_task:
  assumes "range_run E req evs (start_range s) = Some p"
    and "range_task (env_profile E) (env_sdk E) (env_api E) (env_client E) req (s, \<lparr>delivered = [], hangs_up = None\<rparr>) =
      (r, s', tx)"
  shows "length (rg_responses p) \<le> 100 \<and>
    (if rg_consumer_here p
     then prefix (rg_taken p @ rg_responses p) (delivered tx) \<and>
       (\<forall>r'. rg_phase p = RangeEnded r' \<longrightarrow> rg_taken p @ rg_responses p = delivered tx \<and> r' = r)
     else prefix (rg_taken p) (delivered tx))"
proof -
  have "range_items E req s = (delivered tx, r)" using assms(2) by (simp add: range_items_def)
  with range_run_inv [OF assms(1) start_range_inv] have inv: "range_inv E req (delivered tx, r) p" by simp
  show ?thesis
  proof (cases "rg_consumer_here p")
    case True
    with inv have "(rg_taken p @ rg_responses p) @ fst (to_come E req p) = delivered tx" "snd (to_come E req p) = r"
      by (simp_all add: range_inv_def)
    with True range_bounded [OF assms(1)] show ?thesis
      by (auto simp: to_come_def RANGE_CAPACITY_def intro: prefixI [OF sym])
  next
    case False
    with inv range_bounded [OF assms(1)] show ?thesis by (simp add: range_inv_def RANGE_CAPACITY_def)
  qed
qed

theorem range_pipeline_refines_task_witness:
  "\<exists>p r s' tx. range_run demo_env demo_range [Advance, Advance, Deliver, TakeItem] (start_range (demo_sys 1 ())) = Some p \<and>
     range_task Debug demo_sdk demo_api demo_client demo_range (demo_sys 1 (), \<lparr>delivered = [], hangs_up = None\<rparr>) = (r, s', tx) \<and>
     prefix (rg_taken p @ rg_responses p) (delivered tx) \<and> length (rg_taken p) = 1"
proof -
  obtain p where p: "range_run demo_env demo_range [Advance, Advance, Deliver, TakeItem] (start_range (demo_sys 1 ())) = Some p"
      "rg_consumer_here p" "length (rg_taken p) = 1"
    using demo_range_run by blast
  obtain r s' tx where t: "range_task (env_profile demo_env) (env_sdk demo_env) (env_api demo_env) (env_client demo_env)
      demo_range (demo_sys 1 (), \<lparr>delivered = [], hangs_up = None\<rparr>) = (r, s', tx)" by (metis prod_cases3)
  from range_pipeline_refines_task [OF p(1) t] p t show ?thesis by auto
qed

text \<open>C15: The task of \<open>get_block_range\<close> ends: whatever the consumer does, it makes at most two steps for
  each slot listed and two more, and it can always make the next one unless 100 items wait for a
  consumer that is still there.\<close>

theorem range_task_ends:
  assumes "range_run E req evs (start_range s) = Some p"
  shows "length (filter task_step evs) \<le> 2 * length (listed E req s) + 2 \<and>
    ((\<exists>r. rg_phase p = RangeEnded r) \<or> (\<exists>ev p'. task_step ev \<and> range_react E req ev p = Some p') \<or>
     rg_consumer_here p \<and> length (rg_responses p) = 100)"
proof
  show "length (filter task_step evs) \<le> 2 * length (listed E req s) + 2"
    using range_run_steps [OF assms] by (simp add: steps_left_def start_range_def)
  have "length (rg_responses p) \<le> RANGE_CAPACITY" by (rule range_bounded [OF assms])
  then show "(\<exists>r. rg_phase p = RangeEnded r) \<or> (\<exists>ev p'. task_step ev \<and> range_react E req ev p = Some p') \<or>
     rg_consumer_here p \<and> length (rg_responses p) = 100"
    using range_progress [of p E req] by (auto simp: RANGE_CAPACITY_def)
qed

theorem range_task_ends_witness:
  "\<exists>p. range_run demo_env demo_range [Advance, Advance, Deliver, TakeItem] (start_range (demo_sys 1 ())) = Some p \<and>
     length (filter task_step [Advance, Advance, Deliver, TakeItem]) \<le> 2 * length (listed demo_env demo_range (demo_sys 1 ())) + 2"
proof -
  obtain p where p: "range_run demo_env demo_range [Advance, Advance, Deliver, TakeItem] (start_range (demo_sys 1 ())) = Some p"
    using demo_range_run by blast
  from range_task_ends [OF p] p show ?thesis by blast
qed

end
