(* ===== verification/Service_Host.thy ===== *)
theory Service_Host
  imports New_Blocks Block_Ranges
begin

section \<open>The running service\<close>

text \<open>
  \<open>SolanaService\<close> of \<open>service/mod.rs\<close> with everything its calls leave at work. All clones of the client
  share one state, the \<open>world\<close>; a call of \<open>get_block_range\<close> or \<open>subscribe_new_blocks\<close> spawns a task, and
  the caller's handle of the stream is the place of that task in the host's lists. The task of
  \<open>subscribe_new_blocks\<close> subscribes when it first runs (\<open>StartBlocks\<close>, with the id it draws); that of
  \<open>get_block_range\<close> does nothing to the world before it lists the slots. A step of
  a task is a step of its pipeline, on the world as it is at that moment; the host runs the tasks in
  any order, and stops when one of them aborts the process.
\<close>

datatype 'w block_task = Spawned | Running string "'w pipe"

record 'w host =
  world :: "'w sys"
  range_tasks :: "(get_block_range_request \<times> 'w range_pipe) list"
  block_tasks :: "(subscribe_new_blocks_request \<times> 'w block_task) list"

definition start_host :: "'w sys \<Rightarrow> 'w host" where
  "start_host s = \<lparr>world = s, range_tasks = [], block_tasks = []\<rparr>"

subsection \<open>The calls\<close>

definition host_get_block ::
    "('c, 'w) sub_env \<Rightarrow> get_block_request \<Rightarrow> 'w host \<Rightarrow> (status + get_block_response) outcome \<times> 'w host" where
  "host_get_block E req h =
     (case get_block_handler (env_profile E) (env_sdk E) (env_api E) (env_client E) req (world h) of
        (r, s') \<Rightarrow> (r, h\<lparr>world := s'\<rparr>))"

definition host_get_block_range ::
    "('c, 'w) sub_env \<Rightarrow> get_block_range_request \<Rightarrow> 'w host \<Rightarrow> (status + nat) outcome \<times> 'w host" where
  "host_get_block_range E req h =
     (case range_check (env_profile E) req of
        Inl e \<Rightarrow> (Inl e, h)
      | Inr (Inl st) \<Rightarrow> (Inr (Inl st), h)
      | Inr (Inr _) \<Rightarrow>
          (Inr (Inr (length (range_tasks h))),
           h\<lparr>range_tasks := range_tasks h @ [(req, start_range (world h))]\<rparr>))"

definition host_subscribe_new_blocks ::
    "subscribe_new_blocks_request \<Rightarrow> 'w host \<Rightarrow> (status + nat) outcome \<times> 'w host" where
  "host_subscribe_new_blocks req h =
     (Inr (Inr (length (block_tasks h))), h\<lparr>block_tasks := block_tasks h @ [(req, Spawned)]\<rparr>)"

subsection \<open>The tasks\<close>

datatype host_event = RunRange nat range_event | StartBlocks nat string | RunBlocks nat pipe_event

fun run_task :: "('c, 'w) sub_env \<Rightarrow> host_event \<Rightarrow> 'w host \<Rightarrow> 'w host option" where
  "run_task E (RunRange k ev) h =
     (if k < length (range_tasks h) then
        (case range_tasks h ! k of (req, p) \<Rightarrow>
           map_option (\<lambda>p'. h\<lparr>world := rg_shared p', range_tasks := (range_tasks h)[k := (req, p')]\<rparr>)
             (range_react E req ev (p\<lparr>rg_shared := world h\<rparr>)))
      else None)"
| "run_task E (StartBlocks k new_id) h =
     (if k < length (block_tasks h) then
        (case block_tasks h ! k of
           (req, Spawned) \<Rightarrow>
             (let p = subscribe_new_blocks (E\<lparr>env_id := new_id\<rparr>) (world h) in
              Some (h\<lparr>world := shared (sub p), block_tasks := (block_tasks h)[k := (req, Running new_id p)]\<rparr>))
         | (req, Running _ _) \<Rightarrow> None)
      else None)"
| "run_task E (RunBlocks k ev) h =
     (if k < length (block_tasks h) then
        (case block_tasks h ! k of
           (req, Spawned) \<Rightarrow> None
         | (req, Running i p) \<Rightarrow>
             map_option (\<lambda>p'. h\<lparr>world := shared (sub p'), block_tasks := (block_tasks h)[k := (req, Running i p')]\<rparr>)
               (pipe_react (E\<lparr>env_id := i\<rparr>) req ev (p\<lparr>sub := (sub p)\<lparr>shared := world h\<rparr>\<rparr>)))
      else None)"

fun task_aborted :: "'w block_task \<Rightarrow> bool" where
  "task_aborted Spawned = False"
| "task_aborted (Running _ p) = process_aborted p"

definition host_aborted :: "'w host \<Rightarrow> bool" where
  "host_aborted h \<longleftrightarrow>
     list_ex (\<lambda>(_, p). range_exit p = Some Aborted) (range_tasks h) \<or>
     list_ex (\<lambda>(_, t). task_aborted t) (block_tasks h)"

subsection \<open>What every task keeps, whatever the others do to the world\<close>

text \<open>The two panics that can abort the process.\<close>

definition bad_block :: "('c, 'w) sub_env \<Rightarrow> panic \<Rightarrow> bool" where
  "bad_block E e \<longleftrightarrow> e = IndexOutOfBounds \<and>
     (\<exists>b. given_block E b \<and> \<not> list_all (transaction_ok (env_sdk E)) (blk_transactions b))"

definition range_ok :: "('c, 'w) sub_env \<Rightarrow> 'w range_pipe \<Rightarrow> bool" where
  "range_ok E p \<longleftrightarrow> length (rg_responses p) \<le> RANGE_CAPACITY \<and>
     (\<forall>e. rg_phase p = RangeEnded (Inl e) \<longrightarrow> overflow_crash E e \<or> bad_block E e)"

lemma fetch_slot_ok:
  assumes "env_ok E" and "sys_ok (sc_client (env_client E)) (rg_shared p)" and "range_ok E p"
  shows "sys_ok (sc_client (env_client E)) (rg_shared (fetch_slot E slot slots p)) \<and> range_ok E (fetch_slot E slot slots p)"
proof -
  have ok: "api_ok (env_api E) (sc_client (env_client E))" using assms(1) by (simp add: env_ok_def)
  obtain r s' where g: "get_block (env_profile E) (env_sdk E) (env_api E) (env_client E) slot (rg_shared p) = (r, s')"
      "sys_ok (sc_client (env_client E)) s'" "\<And>e. r = Inl e \<Longrightarrow> overflow_crash E e"
    using get_block_crash [OF assms(2) ok, of "env_profile E" "env_sdk E" slot] by (auto simp: overflow_crash_def)
  show ?thesis
  proof (cases r)
    case (Inl e)
    with g assms(3) show ?thesis by (simp add: fetch_slot_def range_ok_def)
  next
    case (Inr q)
    have "bad_block E e" if e: "block_item (env_sdk E) q = Inl e" for e
    proof -
      from e obtain b where b: "q = Inr b" "e = IndexOutOfBounds"
          "\<not> list_all (transaction_ok (env_sdk E)) (blk_transactions b)"
        by (auto simp: block_item_conv split: sum.splits if_splits)
      with get_block_given [OF assms(2) ok] g(1) Inr show ?thesis by (auto simp: bad_block_def)
    qed
    with g(1,2) Inr assms(3) show ?thesis
      by (cases "block_item (env_sdk E) q") (simp_all add: fetch_slot_def range_ok_def)
  qed
qed

lemma list_slots_ok:
  assumes "env_ok E" and "sys_ok (sc_client (env_client E)) (rg_shared p)" and "range_ok E p"
  shows "sys_ok (sc_client (env_client E)) (rg_shared (list_slots E req p)) \<and> range_ok E (list_slots E req p)"
proof -
  obtain r s' where g: "get_blocks (env_profile E) (env_api E) (env_client E) (as_u64 (gr_start_slot req))
      (Some (as_u64 (gr_end_slot req))) (rg_shared p) = (Inr r, s')" "sys_ok (sc_client (env_client E)) s'"
    using get_blocks_answer [OF assms(2)] assms(1) by (metis env_ok_def)
  with assms(3) show ?thesis by (cases r) (simp_all add: list_slots_def range_ok_def)
qed

lemma range_react_ok:
  assumes "range_react E req ev p = Some p'" and "env_ok E"
    and "sys_ok (sc_client (env_client E)) (rg_shared p)" and "range_ok E p"
  shows "sys_ok (sc_client (env_client E)) (rg_shared p') \<and> range_ok E p'"
proof -
  have step: "range_step E req ev p = Some p'" by (rule range_react_step [OF assms(1)])
  show ?thesis
  proof (cases ev)
    case Advance
    consider "rg_phase p = Listing" | "rg_phase p = Fetching []" | slot slots where "rg_phase p = Fetching (slot # slots)"
      using step Advance by (auto split: range_phase.splits list.splits)
    then show ?thesis
    proof cases
      case 1
      with step Advance list_slots_ok [OF assms(2-4)] show ?thesis by auto
    next
      case 2
      with step Advance assms(3,4) show ?thesis by (auto simp: range_ok_def)
    next
      case 3
      with step Advance fetch_slot_ok [OF assms(2-4)] show ?thesis by auto
    qed
  qed (use step assms(3,4) in \<open>auto simp: deliver_item_def range_ok_def
      split: range_phase.splits list.splits option.splits if_splits\<close>)
qed

definition blocks_ok :: "('c, 'w) sub_env \<Rightarrow> 'w pipe \<Rightarrow> bool" where
  "blocks_ok E p \<longleftrightarrow>
     cursor_inv E (sub p) \<and> channel_inv (sub p) \<and> given_inv E (sub p) \<and>
     length (responses p) \<le> RESPONSE_CAPACITY \<and>
     (\<forall>e. forward p = ForwardEnded (Inl e) \<longrightarrow> bad_block E e)"

lemma blocks_ok_world:
  assumes "blocks_ok E p" and "sys_ok (sc_client (env_client E)) s"
  shows "blocks_ok E (p\<lparr>sub := (sub p)\<lparr>shared := s\<rparr>\<rparr>)"
proof -
  have "in_flight_ok ((sub p)\<lparr>shared := s\<rparr>) = in_flight_ok (sub p)"
    by (rule in_flight_cong) (simp_all add: log_def)
  with assms show ?thesis
    by (simp add: blocks_ok_def cursor_inv_def channel_inv_def given_inv_def log_def)
qed

lemma run_sub_ok:
  "run E evs st = Some st' \<Longrightarrow> env_ok E \<Longrightarrow> cursor_inv E st \<and> channel_inv st \<and> given_inv E st \<Longrightarrow>
   cursor_inv E st' \<and> channel_inv st' \<and> given_inv E st'"
proof (induction evs arbitrary: st)
  case (Cons ev evs)
  then obtain t where t: "react E ev st = Some t" "run E evs t = Some st'" by (auto split: bind_splits)
  have "cursor_inv E t \<and> channel_inv t \<and> given_inv E t"
    using Cons.prems(2,3) react_cursor_inv [OF _ t(1)] react_channel_inv [OF t(1)] react_given_inv [OF _ _ t(1)]
    by (auto simp: cursor_inv_def)
  with Cons.IH t(2) Cons.prems(2) show ?case by blast
qed simp

text \<open>The forwarding task panics on a block only.\<close>

lemma forward_panic:
  assumes "pipe_step E req ev p = Some p'" and "given_inv E (sub p)" and "forward p' = ForwardEnded (Inl e)"
  shows "forward p = ForwardEnded (Inl e) \<or> bad_block E e"
proof (cases ev)
  case Take
  with assms(1) obtain u us where u: "queue (sub p) = u # us"
      "handle_update E req u (p\<lparr>sub := (sub p)\<lparr>queue := us, received := received (sub p) @ [u]\<rparr>\<rparr>) = Some p'"
    by (auto split: forward_phase.splits list.splits if_splits)
  show ?thesis
  proof (cases "fst (update_emit (env_sdk E) (sn_start_slot req) u ())")
    case (Inl e')
    then have "emitted_result E req [u] = Inl e'" by (auto simp: emitted_result_def split: prod.splits)
    from update_emissions_Inl [OF this [unfolded emitted_result_def]] obtain b where
      "e' = IndexOutOfBounds" "u = NewBlock b" "\<not> list_all (transaction_ok (env_sdk E)) (blk_transactions b)" by auto
    with Inl u assms(2,3) show ?thesis by (auto simp: handle_update_emit bad_block_def given_inv_def log_def)
  next
    case (Inr r)
    with u(2) assms(3) show ?thesis by (auto simp: handle_update_emit split: option.splits)
  qed
next
  case Push
  with assms show ?thesis by (auto simp: push_response_def end_forward_eq split: forward_phase.splits if_splits)
qed (use assms in \<open>auto simp: end_forward_eq split: if_splits list.splits\<close>)

lemma pipe_react_ok:
  assumes "pipe_react E req ev p = Some p'" and "env_ok E" and "blocks_ok E p"
  shows "blocks_ok E p'"
proof -
  have step: "pipe_step E req ev p = Some p'" by (rule pipe_react_step [OF assms(1)])
  obtain es where "run E es (sub p) = Some (sub p')" using pipe_step_sub [OF step] by blast
  from run_sub_ok [OF this assms(2)] have "cursor_inv E (sub p') \<and> channel_inv (sub p') \<and> given_inv E (sub p')"
    using assms(3) by (simp add: blocks_ok_def)
  moreover have "length (responses p') \<le> RESPONSE_CAPACITY"
    using new_blocks_channel.exec_bounded [of E req "[ev]" p p'] assms(1,3) by (simp add: blocks_ok_def)
  moreover have "\<forall>e. forward p' = ForwardEnded (Inl e) \<longrightarrow> bad_block E e"
    using forward_panic [OF step] assms(3) by (auto simp: blocks_ok_def)
  ultimately show ?thesis by (simp add: blocks_ok_def)
qed

lemma start_blocks_ok:
  assumes "env_ok E" and "sys_ok (sc_client (env_client E)) s"
  shows "blocks_ok E (subscribe_new_blocks E s)"
  using assms reachable_cursor_inv [OF assms reachable.start] reachable_channel_inv [OF reachable.start]
    reachable_given_inv [OF assms reachable.start]
  by (simp add: blocks_ok_def subscribe_new_blocks_def)

subsection \<open>The invariant of the host\<close>

fun block_task_ok :: "('c, 'w) sub_env \<Rightarrow> 'w block_task \<Rightarrow> bool" where
  "block_task_ok E Spawned = True"
| "block_task_ok E (Running i p) = blocks_ok (E\<lparr>env_id := i\<rparr>) p"

definition host_ok :: "('c, 'w) sub_env \<Rightarrow> 'w host \<Rightarrow> bool" where
  "host_ok E h \<longleftrightarrow> sys_ok (sc_client (env_client E)) (world h) \<and>
     list_all (\<lambda>(req, p). range_check (env_profile E) req = Inr (Inr ()) \<and> range_ok E p) (range_tasks h) \<and>
     list_all (\<lambda>(_, t). block_task_ok E t) (block_tasks h)"

lemma start_host_ok: "sys_ok (sc_client (env_client E)) s \<Longrightarrow> host_ok E (start_host s)"
  by (simp add: host_ok_def start_host_def)

lemma host_get_block_ok:
  assumes "env_ok E" and "host_ok E h"
  shows "host_ok E (snd (host_get_block E req h))"
proof -
  obtain q t where "get_block (env_profile E) (env_sdk E) (env_api E) (env_client E) (as_u64 (gb_slot req)) (world h) = (q, t)"
      "sys_ok (sc_client (env_client E)) t"
    using get_block_crash [of "env_client E" "world h" "env_api E" "env_profile E" "env_sdk E" "as_u64 (gb_slot req)"]
      assms by (auto simp: env_ok_def host_ok_def)
  with assms(2) show ?thesis
    by (auto simp: host_get_block_def get_block_handler_cases host_ok_def split: sum.split)
qed

lemma host_get_block_range_ok:
  "host_ok E h \<Longrightarrow> host_ok E (snd (host_get_block_range E req h))"
  by (auto simp: host_get_block_range_def host_ok_def range_ok_def start_range_def split: sum.split)

lemma host_subscribe_ok: "host_ok E h \<Longrightarrow> host_ok E (snd (host_subscribe_new_blocks req h))"
  by (auto simp: host_subscribe_new_blocks_def host_ok_def)

lemma run_task_ok:
  assumes "run_task E ev h = Some h'" and "env_ok E" and "host_ok E h"
  shows "host_ok E h'"
proof (cases ev)
  case (RunRange k rev)
  with assms(1) obtain req p p' where p: "k < length (range_tasks h)" "range_tasks h ! k = (req, p)"
      "range_react E req rev (p\<lparr>rg_shared := world h\<rparr>) = Some p'"
      "h' = h\<lparr>world := rg_shared p', range_tasks := (range_tasks h)[k := (req, p')]\<rparr>"
    by (auto split: if_splits prod.splits)
  have "range_check (env_profile E) req = Inr (Inr ()) \<and> range_ok E p"
    using assms(3) p(1,2) by (auto simp: host_ok_def list_all_length)
  moreover from this have "range_ok E (p\<lparr>rg_shared := world h\<rparr>)" by (simp add: range_ok_def)
  with range_react_ok [OF p(3) assms(2)] assms(3)
  have "sys_ok (sc_client (env_client E)) (rg_shared p') \<and> range_ok E p'" by (simp add: host_ok_def)
  ultimately show ?thesis using assms(3) by (simp add: p(4) host_ok_def list_all_update)
next
  case (StartBlocks k new_id)
  with assms(1) obtain req where p: "h' = h\<lparr>world := shared (sub (subscribe_new_blocks (E\<lparr>env_id := new_id\<rparr>) (world h))),
      block_tasks := (block_tasks h)[k := (req, Running new_id (subscribe_new_blocks (E\<lparr>env_id := new_id\<rparr>) (world h)))]\<rparr>"
    by (auto simp: Let_def split: if_splits prod.splits block_task.splits)
  have "blocks_ok (E\<lparr>env_id := new_id\<rparr>) (subscribe_new_blocks (E\<lparr>env_id := new_id\<rparr>) (world h))"
    using start_blocks_ok [of "E\<lparr>env_id := new_id\<rparr>" "world h"] assms(2,3) by (simp add: env_ok_def host_ok_def)
  moreover from this have "sys_ok (sc_client (env_client E)) (shared (sub (subscribe_new_blocks (E\<lparr>env_id := new_id\<rparr>) (world h))))"
    by (simp add: blocks_ok_def cursor_inv_def)
  ultimately show ?thesis using assms(3) by (simp add: p host_ok_def list_all_update)
next
  case (RunBlocks k pev)
  with assms(1) obtain req i p p' where p: "k < length (block_tasks h)" "block_tasks h ! k = (req, Running i p)"
      "pipe_react (E\<lparr>env_id := i\<rparr>) req pev (p\<lparr>sub := (sub p)\<lparr>shared := world h\<rparr>\<rparr>) = Some p'"
      "h' = h\<lparr>world := shared (sub p'), block_tasks := (block_tasks h)[k := (req, Running i p')]\<rparr>"
    by (auto split: if_splits prod.splits block_task.splits)
  have "blocks_ok (E\<lparr>env_id := i\<rparr>) p"
    using assms(3) p(1,2) by (auto simp: host_ok_def list_all_length)
  then have "blocks_ok (E\<lparr>env_id := i\<rparr>) (p\<lparr>sub := (sub p)\<lparr>shared := world h\<rparr>\<rparr>)"
    using assms(3) by (intro blocks_ok_world) (simp_all add: host_ok_def)
  from pipe_react_ok [OF p(3) _ this] have "blocks_ok (E\<lparr>env_id := i\<rparr>) p'"
    using assms(2) by (simp add: env_ok_def)
  moreover from this have "sys_ok (sc_client (env_client E)) (shared (sub p'))"
    by (simp add: blocks_ok_def cursor_inv_def)
  ultimately show ?thesis using assms(3) by (simp add: p(4) host_ok_def list_all_update)
qed

lemma reason_env_id [simp]:
  "overflow_crash (E\<lparr>env_id := i\<rparr>) e = overflow_crash E e" "bad_block (E\<lparr>env_id := i\<rparr>) e = bad_block E e"
  by (simp_all add: overflow_crash_def bad_block_def given_block_def)

text \<open>Why the process can go down.\<close>

lemma host_aborted_reason:
  assumes "host_ok E h" and "host_aborted h"
  shows "\<exists>e. overflow_crash E e \<or> bad_block E e"
proof -
  from assms(2) consider req p where "(req, p) \<in> set (range_tasks h)" "range_exit p = Some Aborted"
    | req i p where "(req, Running i p) \<in> set (block_tasks h)" "process_aborted p"
    by (auto simp: host_aborted_def list_ex_iff elim!: task_aborted.elims)
  then show ?thesis
  proof cases
    case 1
    with assms(1) have "range_ok E p" by (auto simp: host_ok_def list_all_iff)
    with 1(2) show ?thesis by (auto simp: range_ok_def range_exit_aborted)
  next
    case 2
    with assms(1) have "blocks_ok (E\<lparr>env_id := i\<rparr>) p" by (auto simp: host_ok_def list_all_iff)
    with 2(2) show ?thesis by (auto simp: process_aborted_iff blocks_ok_def cursor_inv_def)
  qed
qed

end
