(* ===== verification/Grpc_Service.thy ===== *)
theory Grpc_Service
  imports Service_Host
begin

section \<open>The generated client and server\<close>

text \<open>
  The modules \<open>solana_service_client\<close> and \<open>solana_service_server\<close> of \<open>proto/solana.rs\<close>: the client's
  methods, the trait, the server's configuration and its dispatch on the path of a request. \<open>tonic\<close> and
  \<open>http\<close> are parameters: the records \<open>client_lib\<close> and \<open>server_lib\<close> hold the functions the generated code
  calls. What they promise is the hypotheses \<open>transports\<close> and \<open>lib_runs_only\<close>. \<open>serve_all\<close> is the whole
  service at work: requests that arrive through the server, and the tasks they leave (\<open>Service_Host\<close>).
\<close>

subsection \<open>Requests and the trait\<close>

record 'm request =
  message :: 'm
  grpc_method :: "(string \<times> string) option"

text \<open>The trait; \<open>'n\<close> and \<open>'g\<close> are its two associated stream types.\<close>

record ('s, 'n, 'g) service =
  svc_get_block :: "get_block_request request \<Rightarrow> 's \<Rightarrow> (status + get_block_response) outcome \<times> 's"
  svc_subscribe_new_blocks :: "subscribe_new_blocks_request request \<Rightarrow> 's \<Rightarrow> (status + 'n) outcome \<times> 's"
  svc_get_block_range :: "get_block_range_request request \<Rightarrow> 's \<Rightarrow> (status + 'g) outcome \<times> 's"

text \<open>
  The implementation of the trait in \<open>service/mod.rs\<close>, on the state of the running service; a streaming
  method spawns its task there and answers with the handle of the stream.
\<close>

definition solana_service :: "('c, 'w) sub_env \<Rightarrow> ('w host, nat, nat) service" where
  "solana_service E =
     \<lparr>svc_get_block = (\<lambda>req. host_get_block E (message req)),
      svc_subscribe_new_blocks = (\<lambda>req. host_subscribe_new_blocks (message req)),
      svc_get_block_range = (\<lambda>req. host_get_block_range E (message req))\<rparr>"

subsection \<open>The server\<close>

record ('q, 'r, 'z, 'e, 'k, 's, 'n, 'g) server_lib =
  path_of :: "'q \<Rightarrow> string"
  no_encodings :: 'z
  enable :: "'e \<Rightarrow> 'z \<Rightarrow> 'z"
  grpc_server :: 'k
  apply_compression_config :: "'z \<Rightarrow> 'z \<Rightarrow> 'k \<Rightarrow> 'k"
  apply_max_message_size_config :: "nat option \<Rightarrow> nat option \<Rightarrow> 'k \<Rightarrow> 'k"
  run_get_block ::
    "'k \<Rightarrow> (get_block_request request \<Rightarrow> 's \<Rightarrow> (status + get_block_response) outcome \<times> 's) \<Rightarrow> 'q \<Rightarrow> 's \<Rightarrow> 'r outcome \<times> 's"
  run_subscribe_new_blocks ::
    "'k \<Rightarrow> (subscribe_new_blocks_request request \<Rightarrow> 's \<Rightarrow> (status + 'n) outcome \<times> 's) \<Rightarrow> 'q \<Rightarrow> 's \<Rightarrow> 'r outcome \<times> 's"
  run_get_block_range ::
    "'k \<Rightarrow> (get_block_range_request request \<Rightarrow> 's \<Rightarrow> (status + 'g) outcome \<times> 's) \<Rightarrow> 'q \<Rightarrow> 's \<Rightarrow> 'r outcome \<times> 's"
  empty_response :: 'r
  insert_header :: "string \<Rightarrow> string \<Rightarrow> 'r \<Rightarrow> 'r"
  code_value :: "status_code \<Rightarrow> string"
  grpc_status_header :: string
  content_type_header :: string
  grpc_content_type :: string

record ('t, 'z) service_server =
  srv_inner :: 't
  accept_compression_encodings :: 'z
  send_compression_encodings :: 'z
  srv_max_decoding_message_size :: "nat option"
  srv_max_encoding_message_size :: "nat option"

definition server_from_arc ::
    "('q, 'r, 'z, 'e, 'k, 's, 'n, 'g) server_lib \<Rightarrow> 't \<Rightarrow> ('t, 'z) service_server" where
  "server_from_arc L t =
     \<lparr>srv_inner = t, accept_compression_encodings = no_encodings L,
      send_compression_encodings = no_encodings L,
      srv_max_decoding_message_size = None, srv_max_encoding_message_size = None\<rparr>"

definition server_new ::
    "('q, 'r, 'z, 'e, 'k, 's, 'n, 'g) server_lib \<Rightarrow> 't \<Rightarrow> ('t, 'z) service_server" where
  "server_new L t = server_from_arc L t"

definition server_with_interceptor ::
    "('q, 'r, 'z, 'e, 'k, 's, 'n, 'g) server_lib \<Rightarrow> (('t, 'z) service_server \<Rightarrow> 'f \<Rightarrow> 'i) \<Rightarrow> 't \<Rightarrow> 'f \<Rightarrow> 'i" where
  "server_with_interceptor L intercepted t interceptor = intercepted (server_new L t) interceptor"

definition server_accept_compressed ::
    "('q, 'r, 'z, 'e, 'k, 's, 'n, 'g) server_lib \<Rightarrow> 'e \<Rightarrow> ('t, 'z) service_server \<Rightarrow> ('t, 'z) service_server" where
  "server_accept_compressed L e srv =
     srv\<lparr>accept_compression_encodings := enable L e (accept_compression_encodings srv)\<rparr>"

definition server_send_compressed ::
    "('q, 'r, 'z, 'e, 'k, 's, 'n, 'g) server_lib \<Rightarrow> 'e \<Rightarrow> ('t, 'z) service_server \<Rightarrow> ('t, 'z) service_server" where
  "server_send_compressed L e srv =
     srv\<lparr>send_compression_encodings := enable L e (send_compression_encodings srv)\<rparr>"

definition server_max_decoding_message_size :: "nat \<Rightarrow> ('t, 'z) service_server \<Rightarrow> ('t, 'z) service_server" where
  "server_max_decoding_message_size limit srv = srv\<lparr>srv_max_decoding_message_size := Some limit\<rparr>"

definition server_max_encoding_message_size :: "nat \<Rightarrow> ('t, 'z) service_server \<Rightarrow> ('t, 'z) service_server" where
  "server_max_encoding_message_size limit srv = srv\<lparr>srv_max_encoding_message_size := Some limit\<rparr>"

definition server_clone :: "('t, 'z) service_server \<Rightarrow> ('t, 'z) service_server" where
  "server_clone srv =
     (let inner = srv_inner srv in
      \<lparr>srv_inner = inner, accept_compression_encodings = accept_compression_encodings srv,
       send_compression_encodings = send_compression_encodings srv,
       srv_max_decoding_message_size = srv_max_decoding_message_size srv,
       srv_max_encoding_message_size = srv_max_encoding_message_size srv\<rparr>)"

text \<open>The three arms of \<open>call\<close> and the dispatch.\<close>

definition configured ::
    "('q, 'r, 'z, 'e, 'k, 's, 'n, 'g) server_lib \<Rightarrow> (('s, 'n, 'g) service, 'z) service_server \<Rightarrow> 'k" where
  "configured L srv =
     apply_max_message_size_config L (srv_max_decoding_message_size srv) (srv_max_encoding_message_size srv)
       (apply_compression_config L (accept_compression_encodings srv) (send_compression_encodings srv)
         (grpc_server L))"

definition call_get_block ::
    "('q, 'r, 'z, 'e, 'k, 's, 'n, 'g) server_lib \<Rightarrow> (('s, 'n, 'g) service, 'z) service_server \<Rightarrow> 'q \<Rightarrow> 's \<Rightarrow> 'r outcome \<times> 's" where
  "call_get_block L srv q = run_get_block L (configured L srv) (\<lambda>r. svc_get_block (srv_inner srv) r) q"

definition call_subscribe_new_blocks ::
    "('q, 'r, 'z, 'e, 'k, 's, 'n, 'g) server_lib \<Rightarrow> (('s, 'n, 'g) service, 'z) service_server \<Rightarrow> 'q \<Rightarrow> 's \<Rightarrow> 'r outcome \<times> 's" where
  "call_subscribe_new_blocks L srv q =
     run_subscribe_new_blocks L (configured L srv) (\<lambda>r. svc_subscribe_new_blocks (srv_inner srv) r) q"

definition call_get_block_range ::
    "('q, 'r, 'z, 'e, 'k, 's, 'n, 'g) server_lib \<Rightarrow> (('s, 'n, 'g) service, 'z) service_server \<Rightarrow> 'q \<Rightarrow> 's \<Rightarrow> 'r outcome \<times> 's" where
  "call_get_block_range L srv q =
     run_get_block_range L (configured L srv) (\<lambda>r. svc_get_block_range (srv_inner srv) r) q"

definition call_unknown :: "('q, 'r, 'z, 'e, 'k, 's, 'n, 'g) server_lib \<Rightarrow> 's \<Rightarrow> 'r outcome \<times> 's" where
  "call_unknown L s =
     (Inr (insert_header L (content_type_header L) (grpc_content_type L)
        (insert_header L (grpc_status_header L) (code_value L Unimplemented) (empty_response L))), s)"

definition server_call ::
    "('q, 'r, 'z, 'e, 'k, 's, 'n, 'g) server_lib \<Rightarrow> (('s, 'n, 'g) service, 'z) service_server \<Rightarrow> 'q \<Rightarrow> 's \<Rightarrow> 'r outcome \<times> 's" where
  "server_call L srv q s =
     (if path_of L q = ''/solana.SolanaService/GetBlock'' then call_get_block L srv q s
      else if path_of L q = ''/solana.SolanaService/SubscribeNewBlocks'' then call_subscribe_new_blocks L srv q s
      else if path_of L q = ''/solana.SolanaService/GetBlockRange'' then call_get_block_range L srv q s
      else call_unknown L s)"

definition SERVICE_NAME :: string where
  "SERVICE_NAME = ''solana.SolanaService''"

subsection \<open>The client\<close>

record ('t, 'i, 'e, 's, 'b) client_lib =
  grpc_new :: "'t \<Rightarrow> 'i"
  grpc_with_origin :: "'t \<Rightarrow> string \<Rightarrow> 'i"
  grpc_send_compressed :: "'e \<Rightarrow> 'i \<Rightarrow> 'i"
  grpc_accept_compressed :: "'e \<Rightarrow> 'i \<Rightarrow> 'i"
  grpc_max_decoding_message_size :: "nat \<Rightarrow> 'i \<Rightarrow> 'i"
  grpc_max_encoding_message_size :: "nat \<Rightarrow> 'i \<Rightarrow> 'i"
  grpc_ready :: "'i \<Rightarrow> 's \<Rightarrow> (string + unit) \<times> 's"
  unary_get_block :: "'i \<Rightarrow> get_block_request request \<Rightarrow> string \<Rightarrow> 's \<Rightarrow> (status + get_block_response) \<times> 's"
  streaming_subscribe :: "'i \<Rightarrow> subscribe_new_blocks_request request \<Rightarrow> string \<Rightarrow> 's \<Rightarrow> (status + 'b) \<times> 's"
  streaming_get_block_range :: "'i \<Rightarrow> get_block_range_request request \<Rightarrow> string \<Rightarrow> 's \<Rightarrow> (status + 'b) \<times> 's"

record 'i service_client =
  cl_inner :: 'i

definition client_new :: "('t, 'i, 'e, 's, 'b) client_lib \<Rightarrow> 't \<Rightarrow> 'i service_client" where
  "client_new L t = \<lparr>cl_inner = grpc_new L t\<rparr>"

definition client_connect ::
    "('t, 'i, 'e, 's, 'b) client_lib \<Rightarrow> ('d \<Rightarrow> 'err + 'ep) \<Rightarrow> ('ep \<Rightarrow> 's \<Rightarrow> ('err + 't) \<times> 's) \<Rightarrow> 'd \<Rightarrow> 's \<Rightarrow>
     ('err + 'i service_client) \<times> 's" where
  "client_connect L endpoint_new endpoint_connect dst s =
     (case endpoint_new dst of
        Inl e \<Rightarrow> (Inl e, s)
      | Inr ep \<Rightarrow>
          (case endpoint_connect ep s of
             (Inl e, s') \<Rightarrow> (Inl e, s')
           | (Inr conn, s') \<Rightarrow> (Inr (client_new L conn), s')))"

definition client_with_origin :: "('t, 'i, 'e, 's, 'b) client_lib \<Rightarrow> 't \<Rightarrow> string \<Rightarrow> 'i service_client" where
  "client_with_origin L t origin = \<lparr>cl_inner = grpc_with_origin L t origin\<rparr>"

definition client_with_interceptor ::
    "('t, 'i, 'e, 's, 'b) client_lib \<Rightarrow> ('u \<Rightarrow> 'f \<Rightarrow> 't) \<Rightarrow> 'u \<Rightarrow> 'f \<Rightarrow> 'i service_client" where
  "client_with_interceptor L intercepted inner interceptor = client_new L (intercepted inner interceptor)"

definition client_send_compressed :: "('t, 'i, 'e, 's, 'b) client_lib \<Rightarrow> 'e \<Rightarrow> 'i service_client \<Rightarrow> 'i service_client" where
  "client_send_compressed L e c = c\<lparr>cl_inner := grpc_send_compressed L e (cl_inner c)\<rparr>"

definition client_accept_compressed :: "('t, 'i, 'e, 's, 'b) client_lib \<Rightarrow> 'e \<Rightarrow> 'i service_client \<Rightarrow> 'i service_client" where
  "client_accept_compressed L e c = c\<lparr>cl_inner := grpc_accept_compressed L e (cl_inner c)\<rparr>"

definition client_max_decoding_message_size ::
    "('t, 'i, 'e, 's, 'b) client_lib \<Rightarrow> nat \<Rightarrow> 'i service_client \<Rightarrow> 'i service_client" where
  "client_max_decoding_message_size L limit c = c\<lparr>cl_inner := grpc_max_decoding_message_size L limit (cl_inner c)\<rparr>"

definition client_max_encoding_message_size ::
    "('t, 'i, 'e, 's, 'b) client_lib \<Rightarrow> nat \<Rightarrow> 'i service_client \<Rightarrow> 'i service_client" where
  "client_max_encoding_message_size L limit c = c\<lparr>cl_inner := grpc_max_encoding_message_size L limit (cl_inner c)\<rparr>"

definition not_ready :: "string \<Rightarrow> status" where
  "not_ready e = Status UnknownCode (''Service was not ready: '' @ e)"

definition client_get_block ::
    "('t, 'i, 'e, 's, 'b) client_lib \<Rightarrow> 'i service_client \<Rightarrow> get_block_request request \<Rightarrow> 's \<Rightarrow>
     (status + get_block_response) \<times> 's" where
  "client_get_block L c req s =
     (case grpc_ready L (cl_inner c) s of
        (Inl e, s') \<Rightarrow> (Inl (not_ready e), s')
      | (Inr _, s') \<Rightarrow>
          unary_get_block L (cl_inner c) (req\<lparr>grpc_method := Some (''solana.SolanaService'', ''GetBlock'')\<rparr>)
            ''/solana.SolanaService/GetBlock'' s')"

definition client_subscribe_new_blocks ::
    "('t, 'i, 'e, 's, 'b) client_lib \<Rightarrow> 'i service_client \<Rightarrow> subscribe_new_blocks_request request \<Rightarrow> 's \<Rightarrow>
     (status + 'b) \<times> 's" where
  "client_subscribe_new_blocks L c req s =
     (case grpc_ready L (cl_inner c) s of
        (Inl e, s') \<Rightarrow> (Inl (not_ready e), s')
      | (Inr _, s') \<Rightarrow>
          streaming_subscribe L (cl_inner c)
            (req\<lparr>grpc_method := Some (''solana.SolanaService'', ''SubscribeNewBlocks'')\<rparr>)
            ''/solana.SolanaService/SubscribeNewBlocks'' s')"

definition client_get_block_range ::
    "('t, 'i, 'e, 's, 'b) client_lib \<Rightarrow> 'i service_client \<Rightarrow> get_block_range_request request \<Rightarrow> 's \<Rightarrow>
     (status + 'b) \<times> 's" where
  "client_get_block_range L c req s =
     (case grpc_ready L (cl_inner c) s of
        (Inl e, s') \<Rightarrow> (Inl (not_ready e), s')
      | (Inr _, s') \<Rightarrow>
          streaming_get_block_range L (cl_inner c)
            (req\<lparr>grpc_method := Some (''solana.SolanaService'', ''GetBlockRange'')\<rparr>)
            ''/solana.SolanaService/GetBlockRange'' s')"

subsection \<open>A call through the wire\<close>

text \<open>
  What \<open>tonic\<close> documents of one method, for a client and a server that are connected and messages within
  the limits: a request carries its path and message, the server's \<open>unary\<close> or \<open>server_streaming\<close> calls
  the method on the message it received and responds with the result, and the client reads the
  result back (a stream as its remote \<open>view\<close>). A handler that panics breaks the call.
\<close>

definition delivered_request :: "'m request \<Rightarrow> 'm request" where
  "delivered_request req = \<lparr>message = message req, grpc_method = None\<rparr>"

definition transports ::
    "('m request \<Rightarrow> string \<Rightarrow> 's \<Rightarrow> (status + 'y) \<times> 's) \<Rightarrow> ('q \<Rightarrow> 's \<Rightarrow> 'r outcome \<times> 's) \<Rightarrow>
     (('m request \<Rightarrow> 's \<Rightarrow> (status + 'x) outcome \<times> 's) \<Rightarrow> 'q \<Rightarrow> 's \<Rightarrow> 'r outcome \<times> 's) \<Rightarrow> ('q \<Rightarrow> string) \<Rightarrow>
     ('x \<Rightarrow> 'y) \<Rightarrow> status \<Rightarrow> bool" where
  "transports send serve exec path view broken \<longleftrightarrow>
     (\<exists>encode respond decode.
        (\<forall>p m. path (encode p m) = p) \<and>
        (\<forall>f p req s. exec f (encode p (message req)) s =
           (case f (delivered_request req) s of
              (Inl e, s') \<Rightarrow> (Inl e, s') | (Inr a, s') \<Rightarrow> (Inr (respond a), s'))) \<and>
        (\<forall>a. decode (respond a) = map_sum id view a) \<and>
        (\<forall>req p s. send req p s =
           (case serve (encode p (message req)) s of
              (Inl e, s') \<Rightarrow> (Inl broken, s') | (Inr r, s') \<Rightarrow> (decode r, s'))))"

text \<open>What the caller sees of a method's outcome.\<close>

definition seen :: "status \<Rightarrow> ('x \<Rightarrow> 'y) \<Rightarrow> (status + 'x) outcome \<times> 's \<Rightarrow> (status + 'y) \<times> 's" where
  "seen broken view r =
     (case r of (Inl e, s') \<Rightarrow> (Inl broken, s') | (Inr a, s') \<Rightarrow> (map_sum id view a, s'))"

lemma transports_call:
  assumes "transports send serve exec path view broken"
    and "\<And>q s. path q = p \<Longrightarrow> serve q s = exec f q s"
  shows "send req p s = seen broken view (f (delivered_request req) s)"
proof -
  obtain encode respond decode where t:
      "\<forall>p m. path (encode p m) = p"
      "\<forall>f p req s. exec f (encode p (message req)) s =
         (case f (delivered_request req) s of (Inl e, s') \<Rightarrow> (Inl e, s') | (Inr a, s') \<Rightarrow> (Inr (respond a), s'))"
      "\<forall>a. decode (respond a) = map_sum id view a"
      "\<forall>req p s. send req p s =
         (case serve (encode p (message req)) s of (Inl e, s') \<Rightarrow> (Inl broken, s') | (Inr r, s') \<Rightarrow> (decode r, s'))"
    using assms(1) unfolding transports_def by blast
  have "serve (encode p (message req)) s =
      (case f (delivered_request req) s of (Inl e, s') \<Rightarrow> (Inl e, s') | (Inr a, s') \<Rightarrow> (Inr (respond a), s'))"
    by (simp only: assms(2) [OF spec [OF spec [OF t(1)]]] spec [OF spec [OF spec [OF spec [OF t(2)]]]])
  moreover have "send req p s =
      (case serve (encode p (message req)) s of (Inl e, s') \<Rightarrow> (Inl broken, s') | (Inr r, s') \<Rightarrow> (decode r, s'))"
    using t(4) by blast
  moreover obtain o' s' where "f (delivered_request req) s = (o', s')" by fastforce
  ultimately show ?thesis by (cases o') (simp_all add: seen_def t(3))
qed

lemma server_call_paths:
  "path_of L q = ''/solana.SolanaService/GetBlock'' \<Longrightarrow> server_call L srv q s = call_get_block L srv q s"
  "path_of L q = ''/solana.SolanaService/SubscribeNewBlocks'' \<Longrightarrow>
     server_call L srv q s = call_subscribe_new_blocks L srv q s"
  "path_of L q = ''/solana.SolanaService/GetBlockRange'' \<Longrightarrow> server_call L srv q s = call_get_block_range L srv q s"
  by (simp_all add: server_call_def)

subsection \<open>What requests can do to the state\<close>

text \<open>The server library changes the state by calling the method it is given, and in no other way.\<close>

definition runs_only :: "('k \<Rightarrow> ('m request \<Rightarrow> 's \<Rightarrow> 'x \<times> 's) \<Rightarrow> 'q \<Rightarrow> 's \<Rightarrow> 'y \<times> 's) \<Rightarrow> bool" where
  "runs_only exec \<longleftrightarrow>
     (\<forall>k f q P s. (\<forall>r t. P t \<longrightarrow> P (snd (f r t))) \<longrightarrow> P s \<longrightarrow> P (snd (exec k f q s)))"

definition lib_runs_only :: "('q, 'r, 'z, 'e, 'k, 's, 'n, 'g) server_lib \<Rightarrow> bool" where
  "lib_runs_only L \<longleftrightarrow>
     runs_only (run_get_block L) \<and> runs_only (run_subscribe_new_blocks L) \<and> runs_only (run_get_block_range L)"

lemma runs_onlyD:
  "runs_only exec \<Longrightarrow> (\<And>r t. P t \<Longrightarrow> P (snd (f r t))) \<Longrightarrow> P s \<Longrightarrow> P (snd (exec k f q s))"
  unfolding runs_only_def by blast

lemma server_call_keeps:
  assumes "lib_runs_only L" and "P s"
    and "\<And>r t. P t \<Longrightarrow> P (snd (svc_get_block (srv_inner srv) r t))"
    and "\<And>r t. P t \<Longrightarrow> P (snd (svc_subscribe_new_blocks (srv_inner srv) r t))"
    and "\<And>r t. P t \<Longrightarrow> P (snd (svc_get_block_range (srv_inner srv) r t))"
  shows "P (snd (server_call L srv q s))"
proof -
  have "P (snd (call_get_block L srv q s))" "P (snd (call_subscribe_new_blocks L srv q s))"
      "P (snd (call_get_block_range L srv q s))" "P (snd (call_unknown L s))"
    using assms unfolding call_get_block_def call_subscribe_new_blocks_def call_get_block_range_def
      call_unknown_def lib_runs_only_def by (auto intro: runs_onlyD [where P = P])
  then show ?thesis by (simp add: server_call_def)
qed

subsection \<open>Serving\<close>

text \<open>Requests arrive and tasks run, in any order, until a task aborts the process.\<close>

datatype 'q server_event = Request 'q | Work host_event

definition serve_event ::
    "('c, 'w) sub_env \<Rightarrow> ('q, 'r, 'z, 'e, 'k, 'w host, nat, nat) server_lib \<Rightarrow>
     (('w host, nat, nat) service, 'z) service_server \<Rightarrow> 'q server_event \<Rightarrow> 'w host \<Rightarrow> 'w host option" where
  "serve_event E L srv ev h =
     (if host_aborted h then None
      else (case ev of
          Request q \<Rightarrow> Some (snd (server_call L srv q h))
        | Work w \<Rightarrow> run_task E w h))"

primrec serve_all ::
    "('c, 'w) sub_env \<Rightarrow> ('q, 'r, 'z, 'e, 'k, 'w host, nat, nat) server_lib \<Rightarrow>
     (('w host, nat, nat) service, 'z) service_server \<Rightarrow> 'q server_event list \<Rightarrow> 'w host \<Rightarrow> 'w host option" where
  "serve_all E L srv [] h = Some h"
| "serve_all E L srv (ev # evs) h = Option.bind (serve_event E L srv ev h) (serve_all E L srv evs)"

lemma serve_event_ok:
  assumes "serve_event E L srv ev h = Some h'" and "lib_runs_only L" and "srv_inner srv = solana_service E"
    and "env_ok E" and "host_ok E h"
  shows "host_ok E h'"
proof (cases ev)
  case (Request q)
  have "host_ok E (snd (server_call L srv q h))"
    by (rule server_call_keeps [where P = "host_ok E", OF assms(2,5)])
       (simp_all add: assms(3,4) solana_service_def host_get_block_ok host_get_block_range_ok host_subscribe_ok)
  with Request assms(1) show ?thesis by (auto simp: serve_event_def split: if_splits)
next
  case (Work w)
  with assms(1) have "run_task E w h = Some h'" by (simp add: serve_event_def split: if_splits)
  then show ?thesis by (rule run_task_ok [OF _ assms(4,5)])
qed

lemma serve_all_ok:
  assumes "lib_runs_only L" and "srv_inner srv = solana_service E" and "env_ok E"
  shows "serve_all E L srv evs h = Some h' \<Longrightarrow> host_ok E h \<Longrightarrow> host_ok E h'"
  by (induction evs arbitrary: h) (auto split: bind_splits dest: serve_event_ok [OF _ assms])

subsection \<open>A demonstration wire\<close>

datatype wire_message =
    WireGetBlock get_block_request
  | WireSubscribe subscribe_new_blocks_request
  | WireRange get_block_range_request

datatype ('n, 'g) wire_reply =
    ReplyBlock "status + get_block_response"
  | ReplyNew "status + 'n"
  | ReplyRange "status + 'g"
  | ReplyHeaders "(string \<times> string) list"

definition wire_reply_of :: "('a \<Rightarrow> 'r) \<Rightarrow> 'a outcome \<times> 's \<Rightarrow> 'r outcome \<times> 's" where
  "wire_reply_of respond r = (case r of (Inl e, s') \<Rightarrow> (Inl e, s') | (Inr a, s') \<Rightarrow> (Inr (respond a), s'))"

definition broken_call :: status where
  "broken_call = Status Internal ''broken''"

fun read_block :: "('n, 'g) wire_reply \<Rightarrow> status + get_block_response" where
  "read_block (ReplyBlock a) = a" | "read_block _ = Inl broken_call"

fun read_new :: "('n, 'g) wire_reply \<Rightarrow> status + ('n + 'g)" where
  "read_new (ReplyNew a) = map_sum id Inl a" | "read_new _ = Inl broken_call"

fun read_range :: "('n, 'g) wire_reply \<Rightarrow> status + ('n + 'g)" where
  "read_range (ReplyRange a) = map_sum id Inr a" | "read_range _ = Inl broken_call"

definition demo_server_lib ::
    "(string \<times> wire_message, ('n, 'g) wire_reply, nat, nat, unit, 's, 'n, 'g) server_lib" where
  "demo_server_lib =
     \<lparr>path_of = fst, no_encodings = 0, enable = (+), grpc_server = (),
      apply_compression_config = (\<lambda>_ _ k. k), apply_max_message_size_config = (\<lambda>_ _ k. k),
      run_get_block = (\<lambda>_ f q s. case snd q of
          WireGetBlock m \<Rightarrow> wire_reply_of ReplyBlock (f \<lparr>message = m, grpc_method = None\<rparr> s)
        | _ \<Rightarrow> (Inr (ReplyHeaders []), s)),
      run_subscribe_new_blocks = (\<lambda>_ f q s. case snd q of
          WireSubscribe m \<Rightarrow> wire_reply_of ReplyNew (f \<lparr>message = m, grpc_method = None\<rparr> s)
        | _ \<Rightarrow> (Inr (ReplyHeaders []), s)),
      run_get_block_range = (\<lambda>_ f q s. case snd q of
          WireRange m \<Rightarrow> wire_reply_of ReplyRange (f \<lparr>message = m, grpc_method = None\<rparr> s)
        | _ \<Rightarrow> (Inr (ReplyHeaders []), s)),
      empty_response = ReplyHeaders [],
      insert_header = (\<lambda>k v r. case r of ReplyHeaders hs \<Rightarrow> ReplyHeaders ((k, v) # hs) | _ \<Rightarrow> r),
      code_value = (\<lambda>_. ''12''), grpc_status_header = ''grpc-status'',
      content_type_header = ''content-type'', grpc_content_type = ''application/grpc''\<rparr>"

definition demo_read ::
    "(('n, 'g) wire_reply \<Rightarrow> status + 'y) \<Rightarrow> ('n, 'g) wire_reply outcome \<times> 's \<Rightarrow> (status + 'y) \<times> 's" where
  "demo_read decode r = (case r of (Inl e, s') \<Rightarrow> (Inl broken_call, s') | (Inr a, s') \<Rightarrow> (decode a, s'))"

definition demo_client_lib ::
    "(string \<times> wire_message \<Rightarrow> 's \<Rightarrow> ('n, 'g) wire_reply outcome \<times> 's) \<Rightarrow> (unit, unit, nat, 's, 'n + 'g) client_lib" where
  "demo_client_lib serve =
     \<lparr>grpc_new = (\<lambda>_. ()), grpc_with_origin = (\<lambda>_ _. ()), grpc_send_compressed = (\<lambda>_ i. i),
      grpc_accept_compressed = (\<lambda>_ i. i), grpc_max_decoding_message_size = (\<lambda>_ i. i),
      grpc_max_encoding_message_size = (\<lambda>_ i. i), grpc_ready = (\<lambda>_ s. (Inr (), s)),
      unary_get_block = (\<lambda>_ req p s. demo_read read_block (serve (p, WireGetBlock (message req)) s)),
      streaming_subscribe = (\<lambda>_ req p s. demo_read read_new (serve (p, WireSubscribe (message req)) s)),
      streaming_get_block_range = (\<lambda>_ req p s. demo_read read_range (serve (p, WireRange (message req)) s))\<rparr>"

lemma snd_wire_reply: "snd (wire_reply_of respond r) = snd r"
  by (auto simp: wire_reply_of_def split: prod.split sum.split)

lemma demo_lib_runs_only: "lib_runs_only demo_server_lib"
  by (auto simp: lib_runs_only_def runs_only_def demo_server_lib_def snd_wire_reply split: wire_message.split)

lemma demo_transports:
  "transports (unary_get_block (demo_client_lib serve) i) serve (run_get_block demo_server_lib k)
     (path_of demo_server_lib) id broken_call"
  "transports (streaming_subscribe (demo_client_lib serve) i) serve (run_subscribe_new_blocks demo_server_lib k)
     (path_of demo_server_lib) Inl broken_call"
  "transports (streaming_get_block_range (demo_client_lib serve) i) serve (run_get_block_range demo_server_lib k)
     (path_of demo_server_lib) Inr broken_call"
proof -
  note defs = transports_def demo_client_lib_def demo_server_lib_def demo_read_def wire_reply_of_def
    delivered_request_def sum.map_id
  show "transports (unary_get_block (demo_client_lib serve) i) serve (run_get_block demo_server_lib k)
      (path_of demo_server_lib) id broken_call"
    unfolding defs
    by (rule exI [of _ "\<lambda>p m. (p, WireGetBlock m)"], rule exI [of _ ReplyBlock], rule exI [of _ read_block])
       simp
  show "transports (streaming_subscribe (demo_client_lib serve) i) serve (run_subscribe_new_blocks demo_server_lib k)
      (path_of demo_server_lib) Inl broken_call"
    unfolding defs
    by (rule exI [of _ "\<lambda>p m. (p, WireSubscribe m)"], rule exI [of _ ReplyNew], rule exI [of _ read_new]) simp
  show "transports (streaming_get_block_range (demo_client_lib serve) i) serve (run_get_block_range demo_server_lib k)
      (path_of demo_server_lib) Inr broken_call"
    unfolding defs
    by (rule exI [of _ "\<lambda>p m. (p, WireRange m)"], rule exI [of _ ReplyRange], rule exI [of _ read_range]) simp
qed

text \<open>A server of the demonstration service and a client of it.\<close>

definition demo_lib ::
    "(string \<times> wire_message, (nat, nat) wire_reply, nat, nat, unit, unit host, nat, nat) server_lib" where
  "demo_lib = demo_server_lib"

definition demo_service_server :: "((unit host, nat, nat) service, nat) service_server" where
  "demo_service_server = server_new demo_lib (solana_service demo_env)"

definition demo_service_lib :: "(unit, unit, nat, unit host, nat + nat) client_lib" where
  "demo_service_lib = demo_client_lib (server_call demo_lib demo_service_server)"

lemma demo_service_inner: "srv_inner demo_service_server = solana_service demo_env"
  by (simp add: demo_service_server_def server_new_def server_from_arc_def)

lemma demo_service_transports:
  "transports (unary_get_block demo_service_lib i) (server_call demo_lib demo_service_server)
     (run_get_block demo_lib k) (path_of demo_lib) id broken_call"
  "transports (streaming_subscribe demo_service_lib i) (server_call demo_lib demo_service_server)
     (run_subscribe_new_blocks demo_lib k) (path_of demo_lib) Inl broken_call"
  "transports (streaming_get_block_range demo_service_lib i) (server_call demo_lib demo_service_server)
     (run_get_block_range demo_lib k) (path_of demo_lib) Inr broken_call"
  unfolding demo_service_lib_def demo_lib_def by (rule demo_transports)+

lemma demo_lib_ok: "lib_runs_only demo_lib"
  unfolding demo_lib_def by (rule demo_lib_runs_only)

lemma demo_service_ready: "grpc_ready demo_service_lib i s = (Inr (), s)"
  by (simp add: demo_service_lib_def demo_client_lib_def)

text \<open>Requests of both streams, one on an unknown path, and steps of the tasks they leave.\<close>

definition demo_service_run :: "(string \<times> wire_message) server_event list" where
  "demo_service_run =
     [Request (''/solana.SolanaService/GetBlockRange'', WireRange demo_range), Work (RunRange 0 Advance),
      Request (''/nowhere'', WireGetBlock \<lparr>gb_slot = 1\<rparr>),
      Request (''/solana.SolanaService/SubscribeNewBlocks'', WireSubscribe \<lparr>sn_start_slot = 40\<rparr>),
      Work (StartBlocks 0 ''slot-1''), Work (RunBlocks 0 (Sub (Connect (Inr ())))), Work (RunRange 0 Leave)]"

lemma demo_range_accepted: "range_check Debug demo_range = Inr (Inr ())"
  by (simp add: range_check_unfold demo_range_def Let_def)

lemma demo_advance: "list_slots demo_env demo_range (start_range (demo_sys 1 ())) =
    (start_range (demo_sys 1 ()))\<lparr>rg_phase := Fetching [42]\<rparr>"
  using demo_slots by (simp add: list_slots_def start_range_def del: One_nat_def)

lemma demo_calls:
  "snd (server_call demo_lib demo_service_server (''/solana.SolanaService/GetBlockRange'', WireRange demo_range) h) =
     h\<lparr>range_tasks := range_tasks h @ [(demo_range, start_range (world h))]\<rparr>"
  "snd (server_call demo_lib demo_service_server (''/nowhere'', WireGetBlock \<lparr>gb_slot = 1\<rparr>) h) = h"
  "snd (server_call demo_lib demo_service_server
      (''/solana.SolanaService/SubscribeNewBlocks'', WireSubscribe \<lparr>sn_start_slot = 40\<rparr>) h) =
     h\<lparr>block_tasks := block_tasks h @ [(\<lparr>sn_start_slot = 40\<rparr>, Spawned)]\<rparr>"
  by (simp_all add: server_call_def call_get_block_range_def call_subscribe_new_blocks_def call_unknown_def
      demo_lib_def demo_server_lib_def demo_service_inner solana_service_def host_get_block_range_def
      host_subscribe_new_blocks_def snd_wire_reply demo_range_accepted)

lemma demo_service_runs:
  "\<exists>h. serve_all demo_env demo_lib demo_service_server demo_service_run (start_host (demo_sys 1 ())) = Some h \<and>
     length (range_tasks h) = 1 \<and> length (block_tasks h) = 1"
  by (simp add: demo_service_run_def serve_event_def host_aborted_def range_exit_aborted demo_calls start_host_def
      range_react_def demo_advance [unfolded start_range_def] start_range_def Let_def process_aborted_iff
      subscribe_new_blocks_def subscribe_slots_def pipe_react_def del: One_nat_def)

text \<open>What the invariant says of a running task.\<close>

lemma running_task_facts:
  assumes "blocks_ok E p"
  shows "length (responses p) \<le> 100 \<and> length (queue (sub p)) \<le> 100 \<and>
    blocks_announced (received (sub p) @ queue (sub p)) \<and> current_endpoint (sub p) < length (ws_endpoints (env_client E))"
  using assms by (simp add: blocks_ok_def cursor_inv_def cursor_ok_def channel_inv_def log_def
      CHANNEL_CAPACITY_def RESPONSE_CAPACITY_def)

subsection \<open>Properties\<close>

text \<open>C11: A call of the generated client reaches the method of the same name: over a connection that
  transports requests, each of the client's three methods gives its caller what that method of the
  service answers to the message, or the error of a broken call where the method panics.\<close>

theorem client_reaches_service:
  assumes "grpc_ready C (cl_inner c) s = (Inr (), s1)"
    and "transports (unary_get_block C (cl_inner c)) (server_call L srv)
      (run_get_block L (configured L srv)) (path_of L) id broken"
    and "transports (streaming_subscribe C (cl_inner c)) (server_call L srv)
      (run_subscribe_new_blocks L (configured L srv)) (path_of L) view1 broken"
    and "transports (streaming_get_block_range C (cl_inner c)) (server_call L srv)
      (run_get_block_range L (configured L srv)) (path_of L) view2 broken"
  shows "client_get_block C c req s =
      seen broken id (svc_get_block (srv_inner srv) (delivered_request req) s1) \<and>
    client_subscribe_new_blocks C c req1 s =
      seen broken view1 (svc_subscribe_new_blocks (srv_inner srv) (delivered_request req1) s1) \<and>
    client_get_block_range C c req2 s =
      seen broken view2 (svc_get_block_range (srv_inner srv) (delivered_request req2) s1)"
proof (intro conjI)
  show "client_get_block C c req s = seen broken id (svc_get_block (srv_inner srv) (delivered_request req) s1)"
    using transports_call [OF assms(2), of "''/solana.SolanaService/GetBlock''" "svc_get_block (srv_inner srv)"] assms(1)
    by (simp add: client_get_block_def server_call_paths call_get_block_def delivered_request_def)
  show "client_subscribe_new_blocks C c req1 s =
      seen broken view1 (svc_subscribe_new_blocks (srv_inner srv) (delivered_request req1) s1)"
    using transports_call [OF assms(3), of "''/solana.SolanaService/SubscribeNewBlocks''"
        "svc_subscribe_new_blocks (srv_inner srv)"] assms(1)
    by (simp add: client_subscribe_new_blocks_def server_call_paths call_subscribe_new_blocks_def delivered_request_def)
  show "client_get_block_range C c req2 s =
      seen broken view2 (svc_get_block_range (srv_inner srv) (delivered_request req2) s1)"
    using transports_call [OF assms(4), of "''/solana.SolanaService/GetBlockRange''"
        "svc_get_block_range (srv_inner srv)"] assms(1)
    by (simp add: client_get_block_range_def server_call_paths call_get_block_range_def delivered_request_def)
qed

theorem client_reaches_service_witness:
  "client_get_block demo_service_lib (client_new demo_service_lib ())
     \<lparr>message = \<lparr>gb_slot = 42\<rparr>, grpc_method = None\<rparr> (start_host (demo_sys 1 ())) =
   seen broken_call id (host_get_block demo_env \<lparr>gb_slot = 42\<rparr> (start_host (demo_sys 1 ())))"
  using client_reaches_service [OF demo_service_ready
      demo_service_transports,
      of "client_new demo_service_lib ()" "\<lparr>message = \<lparr>gb_slot = 42\<rparr>, grpc_method = None\<rparr>" "start_host (demo_sys 1 ())"]
  by (simp only: demo_service_inner) (simp add: solana_service_def delivered_request_def)

text \<open>C12: Nothing breaks the running service but two kinds of blocks. Whatever requests a server of
  \<open>SolanaService\<close> is sent, and however the tasks of its streaming calls, their subscriptions, the node and
  the consumers are scheduled meanwhile: the shared endpoint index stays in range and its lock usable,
  every streamed range passed the check, the channels hold at most 100 items, the WebSocket cursors
  stay in range, each block follows the slot that announced it, and the process aborts only when an
  endpoint gave a block whose totals overflow (with overflow checks) or one with an index out of range.\<close>

theorem running_service_safe:
  assumes "lib_runs_only L" and "srv_inner srv = solana_service E" and "env_ok E"
    and "sys_ok (sc_client (env_client E)) s" and "serve_all E L srv evs (start_host s) = Some h"
  shows "sys_ok (sc_client (env_client E)) (world h) \<and>
    list_all (\<lambda>(req, p). range_check (env_profile E) req = Inr (Inr ()) \<and> length (rg_responses p) \<le> 100) (range_tasks h) \<and>
    list_all (\<lambda>(_, t). case t of Spawned \<Rightarrow> True | Running i p \<Rightarrow>
        length (responses p) \<le> 100 \<and> length (queue (sub p)) \<le> 100 \<and> blocks_announced (received (sub p) @ queue (sub p)) \<and>
        current_endpoint (sub p) < length (ws_endpoints (env_client E))) (block_tasks h) \<and>
    (host_aborted h \<longrightarrow>
       (env_profile E = Debug \<and> (\<exists>slot b. gave_block (env_api E) (env_client E) slot b \<and> totals_overflow b)) \<or>
       (\<exists>b. given_block E b \<and> \<not> list_all (transaction_ok (env_sdk E)) (blk_transactions b)))"
proof -
  have ok: "host_ok E h" by (rule serve_all_ok [OF assms(1-3,5) start_host_ok [OF assms(4)]])
  show ?thesis
  proof (intro conjI)
    show "sys_ok (sc_client (env_client E)) (world h)" using ok by (simp add: host_ok_def)
    show "list_all (\<lambda>(req, p). range_check (env_profile E) req = Inr (Inr ()) \<and> length (rg_responses p) \<le> 100) (range_tasks h)"
      using ok by (auto simp: host_ok_def range_ok_def RANGE_CAPACITY_def elim!: list.pred_mono_strong)
    show "list_all (\<lambda>(_, t). case t of Spawned \<Rightarrow> True | Running i p \<Rightarrow>
        length (responses p) \<le> 100 \<and> length (queue (sub p)) \<le> 100 \<and> blocks_announced (received (sub p) @ queue (sub p)) \<and>
        current_endpoint (sub p) < length (ws_endpoints (env_client E))) (block_tasks h)"
      using ok running_task_facts
      by (fastforce simp: host_ok_def split: block_task.split elim!: list.pred_mono_strong)
    show "host_aborted h \<longrightarrow>
       (env_profile E = Debug \<and> (\<exists>slot b. gave_block (env_api E) (env_client E) slot b \<and> totals_overflow b)) \<or>
       (\<exists>b. given_block E b \<and> \<not> list_all (transaction_ok (env_sdk E)) (blk_transactions b))"
      using host_aborted_reason [OF ok] by (auto simp: overflow_crash_def bad_block_def)
  qed
qed

theorem running_service_safe_witness:
  "\<exists>h. serve_all demo_env demo_lib demo_service_server demo_service_run (start_host (demo_sys 1 ())) = Some h \<and>
     length (range_tasks h) = 1 \<and> length (block_tasks h) = 1 \<and> sys_ok demo_multi_client (world h)"
proof -
  obtain h where h: "serve_all demo_env demo_lib demo_service_server demo_service_run (start_host (demo_sys 1 ())) = Some h"
      "length (range_tasks h) = 1" "length (block_tasks h) = 1"
    using demo_service_runs by blast
  have "sys_ok (sc_client (env_client demo_env)) (demo_sys 1 ())" by simp
  from running_service_safe [OF demo_lib_ok demo_service_inner demo_env_ok this h(1)] h show ?thesis by simp
qed

end
