(* ===== verification/Concurrent_Failover.thy ===== *)
theory Concurrent_Failover
  imports Multi_Client
begin

section \<open>Many requests on one failover client\<close>

text \<open>
  Every clone of a \<open>MultiClient\<close> shares one index, and many requests run \<open>execute_with_failover\<close> at
  once. This theory cuts the loop at its \<open>await\<close>: a task is about to take the lock, or awaits the
  answer of a client, or has returned. The pool interleaves the tasks in any order; what a client
  may answer is a parameter.
\<close>

datatype ('c, 'a) task =
    Ready nat
  | Calling nat 'c
  | Returned "'a rpc_result outcome"

text \<open>The loop body up to the \<open>await\<close>, and after it: a result, or the failures so far.\<close>

definition pick :: "'c multi_client \<Rightarrow> nat \<Rightarrow> rw_index \<Rightarrow> 'c rpc_result outcome \<times> rw_index" where
  "pick mc attempts l = (if attempts = 0 then (current_client mc l, l) else next_client mc l)"

definition settle :: "'c multi_client \<Rightarrow> nat \<Rightarrow> 'a rpc_result \<Rightarrow> 'a rpc_result outcome + nat" where
  "settle mc attempts r =
     (case r of
        Inr v \<Rightarrow> Inl (Inr (Inr v))
      | Inl e \<Rightarrow> if length (clients mc) \<le> attempts + 1 then Inl (Inr (Inl e)) else Inr (attempts + 1))"

definition after_choice :: "nat \<Rightarrow> 'c rpc_result outcome \<Rightarrow> ('c, 'a) task" where
  "after_choice attempts q =
     (case q of
        Inl p \<Rightarrow> Returned (Inl p)
      | Inr (Inl e) \<Rightarrow> Returned (Inr (Inl e))
      | Inr (Inr c) \<Rightarrow> Calling attempts c)"

definition after_answer :: "'a rpc_result outcome + nat \<Rightarrow> ('c, 'a) task" where
  "after_answer x = (case x of Inl q \<Rightarrow> Returned q | Inr attempts \<Rightarrow> Ready attempts)"

record ('c, 'a) pool =
  tasks :: "('c, 'a) task list"
  shared_index :: rw_index

definition start_pool :: "nat \<Rightarrow> rw_index \<Rightarrow> ('c, 'a) pool" where
  "start_pool k l = \<lparr>tasks = replicate k (Ready 0), shared_index = l\<rparr>"

inductive pool_step :: "'c multi_client \<Rightarrow> ('c \<Rightarrow> 'a rpc_result \<Rightarrow> bool) \<Rightarrow> ('c, 'a) pool \<Rightarrow> ('c, 'a) pool \<Rightarrow> bool"
  for mc :: "'c multi_client" and may :: "'c \<Rightarrow> 'a rpc_result \<Rightarrow> bool" where
  take_lock: "i < length ts \<Longrightarrow> ts ! i = Ready a \<Longrightarrow> pick mc a l = (q, l') \<Longrightarrow>
    pool_step mc may \<lparr>tasks = ts, shared_index = l\<rparr> \<lparr>tasks = ts[i := after_choice a q], shared_index = l'\<rparr>"
| get_answer: "i < length ts \<Longrightarrow> ts ! i = Calling a c \<Longrightarrow> may c r \<Longrightarrow>
    pool_step mc may \<lparr>tasks = ts, shared_index = l\<rparr> \<lparr>tasks = ts[i := after_answer (settle mc a r)], shared_index = l\<rparr>"

subsection \<open>The cut loop is the loop\<close>

lemma failover_loop_cut:
  "failover_loop mc operation a s =
     (case pick mc a (current s) of
        (Inl p, l) \<Rightarrow> (Inl p, s\<lparr>current := l\<rparr>)
      | (Inr (Inl e), l) \<Rightarrow> (Inr (Inl e), s\<lparr>current := l\<rparr>)
      | (Inr (Inr c), l) \<Rightarrow>
          (case operation c (s\<lparr>current := l\<rparr>) of (r, s') \<Rightarrow>
             (case settle mc a r of
                Inl q \<Rightarrow> (q, s')
              | Inr b \<Rightarrow> failover_loop mc operation b s')))"
  by (subst failover_loop.simps)
     (auto simp: pick_def settle_def split: prod.split sum.split)

text \<open>A task that runs alone, each client with one answer, goes through the loop to its result.\<close>

lemma alone_runs:
  "failover_loop mc (\<lambda>c s. (ans c, s)) a s = (q, s') \<Longrightarrow>
   (pool_step mc (\<lambda>c r. r = ans c))\<^sup>*\<^sup>* \<lparr>tasks = [Ready a], shared_index = current s\<rparr>
     \<lparr>tasks = [Returned q], shared_index = current s'\<rparr>"
proof (induction "length (clients mc) - a" arbitrary: a s rule: less_induct)
  case less
  obtain x l where x: "pick mc a (current s) = (x, l)" by fastforce
  have lock: "pool_step mc (\<lambda>c r. r = ans c) \<lparr>tasks = [Ready a], shared_index = current s\<rparr>
      \<lparr>tasks = [after_choice a x], shared_index = l\<rparr>"
    using pool_step.take_lock [of 0 "[Ready a]" a mc "current s" x l] x by simp
  show ?case
  proof (cases "\<exists>c. x = Inr (Inr c)")
    case False
    with less.prems x have "after_choice a x = Returned q \<and> l = current s'"
      by (subst (asm) failover_loop_cut) (auto simp: after_choice_def split: sum.splits)
    with lock show ?thesis by auto
  next
    case True
    then obtain c where c: "x = Inr (Inr c)" by blast
    have call: "pool_step mc (\<lambda>c r. r = ans c) \<lparr>tasks = [Calling a c], shared_index = l\<rparr>
        \<lparr>tasks = [after_answer (settle mc a (ans c))], shared_index = l\<rparr>"
      using pool_step.get_answer [of 0 "[Calling a c]" a c "\<lambda>c r. r = ans c" "ans c" mc l] by simp
    have two: "(pool_step mc (\<lambda>c r. r = ans c))\<^sup>*\<^sup>* \<lparr>tasks = [Ready a], shared_index = current s\<rparr>
        \<lparr>tasks = [after_answer (settle mc a (ans c))], shared_index = l\<rparr>"
      using lock call by (simp add: c after_choice_def)
    show ?thesis
    proof (cases "settle mc a (ans c)")
      case (Inl q')
      then have "q' = q \<and> current s' = l" using less.prems x c
        by (subst (asm) failover_loop_cut) auto
      with two Inl show ?thesis by (simp add: after_answer_def)
    next
      case (Inr b)
      then have b: "b = a + 1" "a + 1 < length (clients mc)" by (auto simp: settle_def split: sum.splits if_splits)
      have "failover_loop mc (\<lambda>c s. (ans c, s)) b (s\<lparr>current := l\<rparr>) = (q, s')"
        using less.prems x c Inr by (subst (asm) failover_loop_cut) auto
      from less.hyps [OF _ this] b have
        "(pool_step mc (\<lambda>c r. r = ans c))\<^sup>*\<^sup>* \<lparr>tasks = [Ready b], shared_index = l\<rparr>
          \<lparr>tasks = [Returned q], shared_index = current s'\<rparr>" by simp
      with two Inr show ?thesis by (simp add: after_answer_def)
    qed
  qed
qed

subsection \<open>Safety\<close>

definition task_ok :: "'c multi_client \<Rightarrow> ('c \<Rightarrow> 'a rpc_result \<Rightarrow> bool) \<Rightarrow> ('c, 'a) task \<Rightarrow> bool" where
  "task_ok mc may t =
     (case t of
        Ready a \<Rightarrow> a < length (clients mc)
      | Calling a c \<Rightarrow> a < length (clients mc) \<and> c \<in> set (clients mc)
      | Returned q \<Rightarrow> \<exists>r. q = Inr r \<and> (\<exists>c \<in> set (clients mc). may c r))"

definition pool_ok :: "'c multi_client \<Rightarrow> ('c \<Rightarrow> 'a rpc_result \<Rightarrow> bool) \<Rightarrow> ('c, 'a) pool \<Rightarrow> bool" where
  "pool_ok mc may s \<longleftrightarrow> lock_ok mc (shared_index s) \<and> list_all (task_ok mc may) (tasks s)"

lemma pick_ok:
  assumes "lock_ok mc l"
  shows "\<exists>c l'. pick mc a l = (Inr (Inr c), l') \<and> c \<in> set (clients mc) \<and> lock_ok mc l'"
proof (cases "a = 0")
  case True
  with assms show ?thesis by (auto simp: pick_def lock_ok_def)
next
  case False
  moreover have "lock_ok mc (advance mc l)" using assms by (rule lock_ok_advance)
  ultimately show ?thesis
    using assms by (auto simp: pick_def next_client_ok advance_def lock_ok_def)
qed

lemma settle_ok:
  "a < length (clients mc) \<Longrightarrow> c \<in> set (clients mc) \<Longrightarrow> may c r \<Longrightarrow>
   task_ok mc may (after_answer (settle mc a r))"
  by (auto simp: settle_def after_answer_def task_ok_def split: sum.split)

lemma task_ok_nth:
  "pool_ok mc may s \<Longrightarrow> i < length (tasks s) \<Longrightarrow> task_ok mc may (tasks s ! i)"
  by (simp add: pool_ok_def list_all_length)

text \<open>What a step does to the task it moves, in a good pool.\<close>

lemma pool_step_shape:
  assumes "pool_step mc may s s'" and "pool_ok mc may s"
  obtains (lock) i a c l where "i < length (tasks s)" "tasks s ! i = Ready a" "a < length (clients mc)"
      "c \<in> set (clients mc)" "lock_ok mc l" "s' = \<lparr>tasks = (tasks s)[i := Calling a c], shared_index = l\<rparr>"
    | (answer) i a c r where "i < length (tasks s)" "tasks s ! i = Calling a c" "a < length (clients mc)"
      "c \<in> set (clients mc)" "may c r"
      "s' = \<lparr>tasks = (tasks s)[i := after_answer (settle mc a r)], shared_index = shared_index s\<rparr>"
  using assms(1)
proof cases
  case (take_lock i ts a l q l')
  obtain c where "q = Inr (Inr c)" "c \<in> set (clients mc)" "lock_ok mc l'"
    using pick_ok [of mc l a] take_lock assms(2) by (auto simp: pool_ok_def)
  moreover have "a < length (clients mc)"
    using task_ok_nth [OF assms(2)] take_lock by (force simp: task_ok_def)
  ultimately show ?thesis using take_lock lock by (simp add: after_choice_def)
next
  case (get_answer i ts a c r l)
  moreover have "a < length (clients mc)" "c \<in> set (clients mc)"
    using task_ok_nth [OF assms(2)] get_answer by (force simp: task_ok_def)+
  ultimately show ?thesis using answer by simp
qed

lemma pool_step_ok:
  assumes "pool_step mc may s s'" and "pool_ok mc may s"
  shows "pool_ok mc may s'"
  using assms
proof (cases rule: pool_step_shape)
  case (lock i a c l)
  with assms(2) show ?thesis by (auto simp: pool_ok_def task_ok_def intro!: list_all_update)
next
  case (answer i a c r)
  with assms(2) show ?thesis by (auto simp: pool_ok_def intro!: list_all_update settle_ok)
qed

lemma start_pool_ok: "lock_ok mc l \<Longrightarrow> pool_ok mc may (start_pool k l)"
  by (auto simp: pool_ok_def start_pool_def task_ok_def lock_ok_def list_all_iff)

lemma pool_steps_ok: "(pool_step mc may ^^ m) s s' \<Longrightarrow> pool_ok mc may s \<Longrightarrow> pool_ok mc may s'"
  by (induction m arbitrary: s') (auto intro: pool_step_ok)

subsection \<open>Termination\<close>

text \<open>A task has two steps to go for each client it has not given up on.\<close>

fun work :: "nat \<Rightarrow> ('c, 'a) task \<Rightarrow> nat" where
  "work n (Ready a) = 2 * (n - a)"
| "work n (Calling a _) = 2 * (n - a) - 1"
| "work n (Returned _) = 0"

definition pool_work :: "'c multi_client \<Rightarrow> ('c, 'a) pool \<Rightarrow> nat" where
  "pool_work mc s = (\<Sum>t \<leftarrow> tasks s. work (length (clients mc)) t)"

lemma sum_list_update_less:
  "i < length xs \<Longrightarrow> f x < f (xs ! i) \<Longrightarrow> (\<Sum>y \<leftarrow> xs[i := x]. f y) < (\<Sum>y \<leftarrow> xs. (f y :: nat))"
proof (induction xs arbitrary: i)
  case (Cons y ys)
  then show ?case by (cases i) auto
qed simp

lemma pool_step_work:
  assumes "pool_step mc may s s'" and "pool_ok mc may s"
  shows "pool_work mc s' < pool_work mc s"
  using assms
proof (cases rule: pool_step_shape)
  case (lock i a c l)
  then have "work (length (clients mc)) (Calling a c) < work (length (clients mc)) (tasks s ! i)" by simp
  from sum_list_update_less [OF lock(1) this] lock show ?thesis by (simp add: pool_work_def)
next
  case (answer i a c r)
  then have "work (length (clients mc)) (after_answer (settle mc a r)) < work (length (clients mc)) (tasks s ! i)"
    by (auto simp: settle_def after_answer_def split: sum.split)
  from sum_list_update_less [OF answer(1) this] answer show ?thesis by (simp add: pool_work_def)
qed

lemma pool_steps_work:
  "(pool_step mc may ^^ m) s s' \<Longrightarrow> pool_ok mc may s \<Longrightarrow> m + pool_work mc s' \<le> pool_work mc s"
proof (induction m arbitrary: s')
  case 0
  then show ?case by simp
next
  case (Suc m)
  then obtain t where t: "(pool_step mc may ^^ m) s t" "pool_step mc may t s'" by auto
  with Suc have "m + pool_work mc t \<le> pool_work mc s" "pool_ok mc may t" by (auto intro: pool_steps_ok)
  with pool_step_work [OF t(2)] show ?case by simp
qed

lemma start_pool_work: "pool_work mc (start_pool k l) = 2 * length (clients mc) * k"
  by (simp add: pool_work_def start_pool_def sum_list_replicate)

lemma pool_progress:
  assumes "pool_ok mc may s" and "\<And>c. c \<in> set (clients mc) \<Longrightarrow> \<exists>r. may c r"
    and "\<not> list_all (\<lambda>t. \<exists>q. t = Returned q) (tasks s)"
  shows "\<exists>s'. pool_step mc may s s'"
proof -
  obtain ts l where s: "s = \<lparr>tasks = ts, shared_index = l\<rparr>" by (cases s)
  obtain i where i: "i < length ts" "\<And>q. ts ! i \<noteq> Returned q"
    using assms(3) by (auto simp: list_all_length s)
  show ?thesis
  proof (cases "ts ! i")
    case (Ready a)
    with i show ?thesis unfolding s by (metis pool_step.take_lock surj_pair)
  next
    case (Calling a c)
    then have "c \<in> set (clients mc)"
      using task_ok_nth [OF assms(1), of i] i(1) by (simp add: task_ok_def s)
    with assms(2) obtain r where "may c r" by blast
    with i(1) Calling show ?thesis unfolding s by (blast intro: pool_step.get_answer)
  qed (use i in auto)
qed

subsection \<open>Two requests, one failing endpoint\<close>

text \<open>A pool with the index at \<open>i\<close>, and its two kinds of step, for writing down runs.\<close>

definition pool_at :: "('c, 'a) task list \<Rightarrow> nat \<Rightarrow> ('c, 'a) pool" where
  "pool_at ts i = \<lparr>tasks = ts, shared_index = \<lparr>lock_value = i, poisoned = False\<rparr>\<rparr>"

lemma pool_at_lock:
  "j < length ts \<Longrightarrow> ts ! j = Ready a \<Longrightarrow> i < length (clients mc) \<Longrightarrow>
   k = (if a = 0 then i else (i + 1) mod length (clients mc)) \<Longrightarrow>
   pool_step mc may (pool_at ts i) (pool_at (ts[j := Calling a (clients mc ! k)]) k)"
  using pool_step.take_lock [of j ts a mc "\<lparr>lock_value = i, poisoned = False\<rparr>" "Inr (Inr (clients mc ! k))"
      "\<lparr>lock_value = k, poisoned = False\<rparr>" may]
  by (simp add: pool_at_def after_choice_def pick_def lock_ok_def next_client_ok split: if_splits)

lemma pool_at_answer:
  "j < length ts \<Longrightarrow> ts ! j = Calling a c \<Longrightarrow> may c r \<Longrightarrow>
   pool_step mc may (pool_at ts i) (pool_at (ts[j := after_answer (settle mc a r)]) i)"
  using pool_step.get_answer [of j ts a c may r mc] by (simp add: pool_at_def)

text \<open>
  Both requests fail on the first endpoint; the first then moves the index to the second endpoint,
  the second moves it on, back to the first.
\<close>

lemma skipping_run:
  fixes mc :: "'c multi_client" and may :: "'c \<Rightarrow> 'a rpc_result \<Rightarrow> bool"
  assumes "clients mc = [c, d]" and "may c (Inl e)"
  shows "(pool_step mc may)\<^sup>*\<^sup>* (start_pool 2 fresh_lock) (pool_at [Calling 1 d, Returned (Inr (Inl e))] 0)"
proof -
  let ?S = "pool_step mc may"
  have start: "start_pool 2 fresh_lock = (pool_at [Ready 0, Ready 0] 0 :: ('c, 'a) pool)"
    by (simp add: start_pool_def pool_at_def fresh_lock_def numeral_2_eq_2)
  have "?S (pool_at [Ready 0, Ready 0] 0) (pool_at [Calling 0 c, Ready 0] 0)"
    using pool_at_lock [of 0 "[Ready 0, Ready 0]" 0 0 mc 0 may] assms(1) by simp
  moreover have "?S (pool_at [Calling 0 c, Ready 0] 0) (pool_at [Calling 0 c, Calling 0 c] 0)"
    using pool_at_lock [of 1 "[Calling 0 c, Ready 0]" 0 0 mc 0 may] assms(1) by simp
  moreover have "?S (pool_at [Calling 0 c, Calling 0 c] 0) (pool_at [Ready 1, Calling 0 c] 0)"
    using pool_at_answer [of 0 "[Calling 0 c, Calling 0 c]" 0 c may "Inl e" mc 0] assms
    by (simp add: settle_def after_answer_def)
  moreover have "?S (pool_at [Ready 1, Calling 0 c] 0) (pool_at [Ready 1, Ready 1] 0)"
    using pool_at_answer [of 1 "[Ready 1, Calling 0 c]" 0 c may "Inl e" mc 0] assms
    by (simp add: settle_def after_answer_def)
  moreover have "?S (pool_at [Ready 1, Ready 1] 0) (pool_at [Calling 1 d, Ready 1] 1)"
    using pool_at_lock [of 0 "[Ready 1, Ready 1]" 1 0 mc 1 may] assms(1) by simp
  moreover have "?S (pool_at [Calling 1 d, Ready 1] 1) (pool_at [Calling 1 d, Calling 1 c] 0)"
    using pool_at_lock [of 1 "[Calling 1 d, Ready 1]" 1 1 mc 0 may] assms(1) by simp
  moreover have "?S (pool_at [Calling 1 d, Calling 1 c] 0) (pool_at [Calling 1 d, Returned (Inr (Inl e))] 0)"
    using pool_at_answer [of 1 "[Calling 1 d, Calling 1 c]" 1 c may "Inl e" mc 0] assms
    by (simp add: settle_def after_answer_def)
  ultimately show ?thesis unfolding start by (meson rtranclp.rtrancl_refl converse_rtranclp_into_rtranclp)
qed

lemma first_lock_step:
  "j < k \<Longrightarrow> i < length (clients mc) \<Longrightarrow>
   \<exists>s. (pool_step mc may ^^ 1) (start_pool k \<lparr>lock_value = i, poisoned = False\<rparr>) s"
  using pool_at_lock [of j "replicate k (Ready 0)" 0 i mc i may] by (auto simp: pool_at_def start_pool_def)

subsection \<open>Properties\<close>

text \<open>The pool runs the code's own steps: a request alone in it, whose clients each give one answer,
  reaches the result and the index that \<open>execute_with_failover\<close> computes.\<close>

lemma alone_is_execute_with_failover:
  assumes "execute_with_failover mc (\<lambda>c s. (ans c, s)) s = (q, s')"
  shows "(pool_step mc (\<lambda>c r. r = ans c))\<^sup>*\<^sup>* (start_pool 1 (current s))
    \<lparr>tasks = [Returned q], shared_index = current s'\<rparr>"
  using alone_runs [OF assms [unfolded execute_with_failover_def]] by (simp add: start_pool_def)

lemma alone_is_execute_with_failover_witness:
  "(pool_step demo_multi_client (\<lambda>c r. r = (Inl RateLimitExceeded :: unit rpc_result)))\<^sup>*\<^sup>*
     (start_pool 1 \<lparr>lock_value = 2, poisoned = False\<rparr>)
     \<lparr>tasks = [Returned (fst (execute_with_failover demo_multi_client (\<lambda>c s. (Inl RateLimitExceeded, s)) (demo_sys 2 ())))],
      shared_index = current (snd (execute_with_failover demo_multi_client
        (\<lambda>c s. (Inl RateLimitExceeded :: unit rpc_result, s)) (demo_sys 2 ())))\<rparr>"
  using alone_is_execute_with_failover [of demo_multi_client "\<lambda>c. Inl RateLimitExceeded" "demo_sys 2 ()"
      "fst (execute_with_failover demo_multi_client (\<lambda>c s. (Inl RateLimitExceeded :: unit rpc_result, s)) (demo_sys 2 ()))"
      "snd (execute_with_failover demo_multi_client (\<lambda>c s. (Inl RateLimitExceeded :: unit rpc_result, s)) (demo_sys 2 ()))"]
  by simp

text \<open>C18: However many requests run at once and however they interleave, the shared index stays in range
  and its lock unpoisoned, no request panics, and what a request returns is something a client of the
  list answered.\<close>

theorem concurrent_failover_safe:
  assumes "lock_ok mc l" and "(pool_step mc may ^^ m) (start_pool k l) s"
  shows "lock_ok mc (shared_index s) \<and>
    list_all (\<lambda>t. case t of Returned q \<Rightarrow> (\<exists>r. q = Inr r \<and> (\<exists>c \<in> set (clients mc). may c r)) | _ \<Rightarrow> True) (tasks s)"
  using pool_steps_ok [OF assms(2) start_pool_ok [OF assms(1)]]
  by (auto simp: pool_ok_def task_ok_def list_all_iff split: task.splits)

theorem concurrent_failover_safe_witness:
  "\<exists>s :: (nat, bool) pool. (pool_step demo_multi_client (\<lambda>c r. c = 1 \<and> r = Inr True) ^^ 1)
      (start_pool 2 \<lparr>lock_value = 1, poisoned = False\<rparr>) s \<and> lock_ok demo_multi_client (shared_index s)"
proof -
  have ok: "lock_ok demo_multi_client \<lparr>lock_value = 1, poisoned = False\<rparr>" by (simp add: lock_ok_def)
  obtain s :: "(nat, bool) pool" where s: "(pool_step demo_multi_client (\<lambda>c r. c = 1 \<and> r = Inr True) ^^ 1)
      (start_pool 2 \<lparr>lock_value = 1, poisoned = False\<rparr>) s"
    using first_lock_step [where j = 0 and k = 2 and mc = demo_multi_client and i = 1] by force
  from concurrent_failover_safe [OF ok s] s show ?thesis by blast
qed

text \<open>C19: Any number \<open>k\<close> of concurrent requests ends: every run takes at most two steps per request and
  client, and as long as a request has not returned, and clients answer at all, some step is
  possible.\<close>

theorem concurrent_failover_terminates:
  assumes "lock_ok mc l" and "(pool_step mc may ^^ m) (start_pool k l) s"
    and "\<And>c. c \<in> set (clients mc) \<Longrightarrow> \<exists>r. may c r"
  shows "m \<le> 2 * length (clients mc) * k \<and>
    (list_all (\<lambda>t. \<exists>q. t = Returned q) (tasks s) \<or> (\<exists>s'. pool_step mc may s s'))"
proof -
  have ok: "pool_ok mc may (start_pool k l)" using assms(1) by (rule start_pool_ok)
  have "m + pool_work mc s \<le> 2 * length (clients mc) * k"
    using pool_steps_work [OF assms(2) ok] by (simp only: start_pool_work)
  then have "m \<le> 2 * length (clients mc) * k" by simp
  moreover have "list_all (\<lambda>t. \<exists>q. t = Returned q) (tasks s) \<or> (\<exists>s'. pool_step mc may s s')"
    using pool_progress [OF pool_steps_ok [OF assms(2) ok] assms(3)] by blast
  ultimately show ?thesis by blast
qed

theorem concurrent_failover_terminates_witness:
  "\<exists>s :: (nat, bool) pool. (pool_step demo_multi_client (\<lambda>c r. r = Inr True) ^^ 1)
      (start_pool 2 \<lparr>lock_value = 1, poisoned = False\<rparr>) s \<and>
     (list_all (\<lambda>t. \<exists>q. t = Returned q) (tasks s) \<or> (\<exists>s'. pool_step demo_multi_client (\<lambda>c r. r = Inr True) s s'))"
proof -
  have ok: "lock_ok demo_multi_client \<lparr>lock_value = 1, poisoned = False\<rparr>" by (simp add: lock_ok_def)
  obtain s :: "(nat, bool) pool" where s: "(pool_step demo_multi_client (\<lambda>c r. r = Inr True) ^^ 1)
      (start_pool 2 \<lparr>lock_value = 1, poisoned = False\<rparr>) s"
    using first_lock_step [where j = 0 and k = 2 and mc = demo_multi_client and i = 1] by force
  from concurrent_failover_terminates [OF ok s] s show ?thesis by blast
qed

text \<open>C20: Failover does not reach every endpoint when requests share the index. With two endpoints, of
  which the first always fails and the second always answers, a request alone gets the answer; but
  of two concurrent requests one can return the first endpoint's error.\<close>

theorem concurrent_requests_skip_endpoints:
  assumes "clients mc = [c, d]" and "c \<noteq> d"
  shows "fst (execute_with_failover mc (\<lambda>x s. (if x = c then Inl e else Inr v, s))
      \<lparr>current = fresh_lock, active_subscriptions = {}, outside = ()\<rparr>) = Inr (Inr v) \<and>
    (\<exists>s. (pool_step mc (\<lambda>x r. r = (if x = c then Inl e else Inr v)))\<^sup>*\<^sup>* (start_pool 2 fresh_lock) s \<and>
      tasks s ! 1 = Returned (Inr (Inl e)))"
proof
  let ?op = "\<lambda>x s. (if x = c then Inl e else Inr v, s)"
  let ?s = "\<lparr>current = fresh_lock, active_subscriptions = {}, outside = ()\<rparr>"
  have l: "leaves_lock ?op" by (simp add: leaves_lock_def)
  have ok: "lock_ok mc (current ?s)" using assms(1) by (simp add: lock_ok_def fresh_lock_def)
  have r: "rotate (lock_value (current ?s)) (clients mc) = c # [d]" using assms(1) by (simp add: fresh_lock_def)
  have t: "try_in_order ?op [d] c ?s = (Inr v, 1, ?s)" using assms(2) by simp
  show "fst (execute_with_failover mc ?op ?s) = Inr (Inr v)" by (simp only: failover_in_order [OF l ok r t] fst_conv)
next
  from skipping_run [OF assms(1), of "\<lambda>x r. r = (if x = c then Inl e else Inr v)" e]
  show "\<exists>s. (pool_step mc (\<lambda>x r. r = (if x = c then Inl e else Inr v)))\<^sup>*\<^sup>* (start_pool 2 fresh_lock) s \<and>
      tasks s ! 1 = Returned (Inr (Inl e))"
    by (intro exI [of _ "pool_at [Calling 1 d, Returned (Inr (Inl e))] 0"]) (simp add: pool_at_def)
qed

theorem concurrent_requests_skip_endpoints_witness:
  "\<exists>s. (pool_step (demo_multi_client\<lparr>clients := [0, 1]\<rparr>)
       (\<lambda>x r. r = (if x = 0 then Inl RateLimitExceeded else Inr True)))\<^sup>*\<^sup>* (start_pool 2 fresh_lock) s \<and>
     tasks s ! 1 = Returned (Inr (Inl RateLimitExceeded))"
  using concurrent_requests_skip_endpoints [of "demo_multi_client\<lparr>clients := [0, 1]\<rparr>" 0 1 RateLimitExceeded True]
  by simp

end
