(* ===== verification/Row_Types.thy ===== *)
theory Row_Types
  imports Block_Conversion
begin

section \<open>The types of the rows\<close>

text \<open>
  Most fields of the messages are strings, but few strings ever occur. A schema gives, for a program
  and an instruction type, the keys of \<open>parsed_data\<close>; a row is well typed when its type occurs for
  its program, its data has exactly these keys, once each, and every number is the decimal text of
  a 64-bit integer. Converted blocks are well typed, so a consumer may read the rows by the schema.
\<close>

definition is_u64_text :: "string \<Rightarrow> bool" where
  "is_u64_text s \<longleftrightarrow> undec s < 2 ^ 64 \<and> dec (undec s) = s"

definition row_schema :: "string \<Rightarrow> string \<Rightarrow> string list option" where
  "row_schema program_id ty =
     (if program_id = SYSTEM_PROGRAM then
        map_of [(''CreateAccount'', [''lamports'', ''space'', ''owner'']), (''Transfer'', [''lamports'']),
          (''Unknown'', []), (''Invalid'', [])] ty
      else if program_id = TOKEN_PROGRAM then
        map_of [(''Transfer'', [''amount'']), (''MintTo'', [''amount'']), (''Burn'', [''amount'']),
          (''Unknown'', []), (''Invalid'', [])] ty
      else map_of [(''Unknown'', [])] ty)"

definition data_fits :: "string list \<Rightarrow> hash_map \<Rightarrow> bool" where
  "data_fits keys pd \<longleftrightarrow>
     set (map fst pd) = set keys \<and> hm_ok pd \<and>
     list_all (\<lambda>(k, v). k \<noteq> ''owner'' \<longrightarrow> is_u64_text v) pd"

definition typed_instruction :: "pb_instruction \<Rightarrow> bool" where
  "typed_instruction row \<longleftrightarrow>
     (case row_schema (pix_program_id row) (pix_instruction_type row) of
        Some keys \<Rightarrow> data_fits keys (pix_parsed_data row) | None \<Rightarrow> False)"

definition category_texts :: "string list" where
  "category_texts =
     [''System_Transfer'', ''Token_Transfer'', ''Dex_JupiterSwap'', ''Dex_RaydiumSwap'', ''Dex_SerumNewOrder'',
      ''NFT_Other'', ''Unknown'']"

definition typed_transaction :: "pb_transaction \<Rightarrow> bool" where
  "typed_transaction row \<longleftrightarrow> ptx_transaction_category row \<in> set category_texts \<and> is_u64_text (ptx_fee row)"

definition typed_transfer :: "pb_transaction list \<Rightarrow> pb_token_transfer \<Rightarrow> bool" where
  "typed_transfer rows row \<longleftrightarrow>
     ptt_token_type row \<in> {''SPL'', ''NFT''} \<and> is_u64_text (ptt_amount row) \<and>
     ptt_transaction_signature row \<in> set (map ptx_signature rows)"

definition typed_block_data :: "block_data \<Rightarrow> bool" where
  "typed_block_data bd \<longleftrightarrow>
     (case bd_block bd of Some hdr \<Rightarrow> is_u64_text (pb_total_fee hdr) | None \<Rightarrow> False) \<and>
     list_all typed_transaction (bd_transactions bd) \<and>
     list_all typed_instruction (bd_instructions bd) \<and>
     list_all (typed_transfer (bd_transactions bd)) (bd_token_transfers bd)"

subsection \<open>Every part of the conversion is well typed\<close>

lemma u64_text [simp]: "is_u64_text (u64_to_string w)"
  using unsigned_less [of w, where ?'a = nat] by (simp add: is_u64_text_def u64_to_string_def)

lemma zero_text [simp]: "is_u64_text ''0''"
  using u64_text [of 0] by (simp add: u64_to_string_def dec.simps digit_def)

lemma category_text_occurs: "category_text (category_of s) \<in> set category_texts"
  by (cases s) (simp_all add: category_texts_def)

lemma transaction_row_typed: "typed_transaction (transaction_row K tx)"
proof -
  have "category_text (transaction_category_of K tx) \<in> set category_texts"
    by (simp add: transaction_category_of_def Let_def category_text_occurs)
  then show ?thesis
    by (simp add: typed_transaction_def transaction_row_def convert_transaction_row_def Let_def split: option.split)
qed

lemma parsed_data_fits:
  "\<exists>keys. row_schema (program_text K m ix) (fst (parsed_instruction K m ix)) = Some keys \<and>
     data_fits keys (snd (parsed_instruction K m ix))"
  by (auto simp: row_schema_def parsed_instruction_def parse_system_instruction_def parse_token_instruction_def
      data_fits_def hm_insert_def hm_ok_def split: option.split system_instruction.split token_instruction.split)

lemma data_fits_lookup:
  "data_fits keys pd \<longleftrightarrow>
     hm_ok pd \<and> dom (map_of pd) = set keys \<and> (\<forall>k v. map_of pd k = Some v \<longrightarrow> k \<noteq> ''owner'' \<longrightarrow> is_u64_text v)"
  by (auto simp: data_fits_def hm_ok_def dom_map_of_conv_image_fst list_all_iff map_of_eq_Some_iff)

lemma data_fits_copy: "data_fits keys pd \<Longrightarrow> data_fits keys (copy_map pd)"
  using hm.insert_all_ok [OF hm.ok_empty] copy_map_lookup [of pd]
  by (simp add: data_fits_lookup) (simp add: copy_map_def)

lemma instruction_row_typed: "typed_instruction (instruction_row K m p)"
proof -
  obtain keys where "row_schema (program_text K m (snd p)) (fst (parsed_instruction K m (snd p))) = Some keys"
      "data_fits keys (snd (parsed_instruction K m (snd p)))"
    using parsed_data_fits by blast
  then show ?thesis by (simp add: typed_instruction_def instruction_row_def data_fits_copy)
qed

lemma transfer_typed:
  assumes "row \<in> set (transfers_found K tx)" and "ptx_signature r = et_signature tx" and "r \<in> set rows"
  shows "typed_transfer rows row"
proof -
  obtain info where row: "row = convert_transfer tx info" using assms(1) by (auto simp: transfers_found_def)
  have "token_type_text t \<in> {''SPL'', ''NFT''}" for t by (cases t) simp_all
  moreover have "et_signature tx \<in> ptx_signature ` set rows" using assms(2,3) by (metis imageI)
  ultimately show ?thesis by (simp add: typed_transfer_def row convert_transfer_def)
qed

lemma block_data_typed: "typed_block_data (block_data_of K b)"
proof -
  let ?rows = "map (transaction_row K) (blk_transactions b)"
  have "typed_transfer ?rows row" if tx: "tx \<in> set (blk_transactions b)" and "row \<in> set (transfers_found K tx)" for tx row
  proof (rule transfer_typed [OF that(2)])
    show "ptx_signature (transaction_row K tx) = et_signature tx"
      by (simp add: transaction_row_def convert_transaction_row_def Let_def)
    show "transaction_row K tx \<in> set ?rows" using tx by simp
  qed
  then show ?thesis
    by (auto simp: typed_block_data_def block_data_of_def convert_header_def list_all_iff transaction_row_typed
        instruction_rows_def instruction_row_typed Let_def)
qed

subsection \<open>Properties\<close>

text \<open>C10: Whatever the converter answers is well typed: a transaction's category is one of seven texts
  (no other category of the enum is ever produced), an instruction's type and the keys of its parsed
  data are those of the schema of its program, a transfer is of type SPL or NFT and names the
  signature of a transaction of the same answer, and every fee, amount and parsed number is the
  decimal text of a 64-bit integer.\<close>

theorem converted_block_typed:
  assumes "convert_block_data K b = Inr r"
  shows "\<exists>bd. r = Inr bd \<and> typed_block_data bd"
  using assms block_data_typed by (auto simp: convert_block_data_eq split: if_splits)

theorem converted_block_typed_witness:
  "\<exists>bd. convert_block_data demo_sdk demo_block = Inr (Inr bd) \<and> typed_block_data bd"
proof -
  have e: "convert_block_data demo_sdk demo_block = Inr (Inr (block_data_of demo_sdk demo_block))"
    by (simp add: convert_block_data_eq)
  from converted_block_typed [OF e] e show ?thesis by simp
qed

end
