(* ===== verification/Entry_Points.thy ===== *)
theory Entry_Points
  imports Prelude
begin

section \<open>Entry points\<close>

text \<open>
  The binary's \<open>main\<close> (\<open>main.rs\<close>) and the build script (\<open>build.rs\<close>). The NATS client and the protobuf
  generator are parameters; \<open>'s\<close> is the world they act on.
\<close>

subsection \<open>The binary\<close>

record ('c, 'e, 's) nats =
  nats_connect :: "string \<Rightarrow> 's \<Rightarrow> ('e + 'c) \<times> 's"
  nats_publish :: "'c \<Rightarrow> string \<Rightarrow> string \<Rightarrow> 's \<Rightarrow> ('e + unit) \<times> 's"
  nats_flush :: "'c \<Rightarrow> 's \<Rightarrow> ('e + unit) \<times> 's"

definition main_binary :: "('c, 'e, 's) nats \<Rightarrow> 's \<Rightarrow> ('e + unit) \<times> 's" where
  "main_binary N s =
     (case nats_connect N ''127.0.0.1'' s of
        (Inl e, s') \<Rightarrow> (Inl e, s')
      | (Inr client, s') \<Rightarrow>
          (case nats_publish N client ''tx.sol'' ''SOL data sample'' s' of
             (Inl e, s'') \<Rightarrow> (Inl e, s'')
           | (Inr _, s'') \<Rightarrow>
               (case nats_flush N client s'' of
                  (Inl e, s''') \<Rightarrow> (Inl e, s''')
                | (Inr _, s''') \<Rightarrow> (Inr (), s'''))))"

text \<open>Success means that the sample was published and flushed on the connection that was made.\<close>

lemma main_binary_ok_iff:
  "main_binary N s = (Inr (), s3) \<longleftrightarrow>
     (\<exists>client s1 s2. nats_connect N ''127.0.0.1'' s = (Inr client, s1) \<and>
        nats_publish N client ''tx.sol'' ''SOL data sample'' s1 = (Inr (), s2) \<and>
        nats_flush N client s2 = (Inr (), s3))"
  by (auto simp: main_binary_def split: prod.split sum.split)

subsection \<open>The build script\<close>

text \<open>What the script asks of \<open>tonic_build\<close>; \<open>path_join\<close> is \<open>PathBuf::join\<close>.\<close>

record compile_request =
  descriptor_path :: string
  generated_dir :: string
  build_server :: bool
  protos :: "string list"
  include_dirs :: "string list"

record build_env =
  out_dir_var :: "string option"
  path_join :: "string \<Rightarrow> string \<Rightarrow> string"

definition proto_files :: "string list" where
  "proto_files = [''../../proto/solana/types.proto'', ''../../proto/solana/service.proto'']"

definition build_request :: "build_env \<Rightarrow> string \<Rightarrow> compile_request" where
  "build_request B out_dir =
     \<lparr>descriptor_path = path_join B out_dir ''solana_descriptor.bin'', generated_dir = ''./proto'',
      build_server = True, protos = proto_files, include_dirs = [''../../proto'']\<rparr>"

text \<open>The result (a panic where \<open>OUT_DIR\<close> is not set), the lines printed, and the world.\<close>

definition build_script ::
    "build_env \<Rightarrow> (compile_request \<Rightarrow> 's \<Rightarrow> ('e + unit) \<times> 's) \<Rightarrow> 's \<Rightarrow>
     ('e + unit) outcome \<times> string list \<times> 's" where
  "build_script B compile s =
     (case out_dir_var B of
        None \<Rightarrow> (Inl UnwrapFailed, [], s)
      | Some out_dir \<Rightarrow>
          (case compile (build_request B out_dir) s of
             (Inl e, s') \<Rightarrow> (Inr (Inl e), [], s')
           | (Inr _, s') \<Rightarrow> (Inr (Inr ()), map (\<lambda>f. ''cargo:rerun-if-changed='' @ f) proto_files, s')))"

text \<open>
  A build that failed prints no line, so cargo goes on watching every file; one that succeeded
  watches each file it compiled.
\<close>

lemma build_script_lines:
  assumes "build_script B compile s = (r, printed, s')"
  shows "(r = Inr (Inr ()) \<longrightarrow>
      (\<forall>out_dir f. out_dir_var B = Some out_dir \<longrightarrow> f \<in> set (protos (build_request B out_dir)) \<longrightarrow>
        ''cargo:rerun-if-changed='' @ f \<in> set printed)) \<and>
    (r \<noteq> Inr (Inr ()) \<longrightarrow> printed = [])"
  using assms by (auto simp: build_script_def build_request_def split: option.splits prod.splits sum.splits)

end
