(* ===== verification/Spec2Isabelle.thy ===== *)
theory Spec2Isabelle
  imports Grpc_Service Concurrent_Failover Row_Types Entry_Points
begin

text \<open>
  The Solana service of \<open>sylph\<close> (\<open>chains/solana\<close>, Rust): a gRPC service that fetches blocks from
  Solana RPC endpoints with failover, follows new slots over WebSockets, and converts blocks into
  protobuf rows of transactions, instructions and token transfers. Paths below are relative to
  \<open>src/chains/solana/src\<close>.

  \<^bold>\<open>Parts and theories.\<close>
  \<^item> \<open>Prelude\<close>: machine integers and casts, build profile and panics, results, the \<open>?\<close> operator and
    loops that push onto a vector, decimal printing, hash maps, and the contract \<open>cursor_ring\<close> of an
    index that goes round (met by the HTTP failover and by the WebSocket reconnection).
  \<^item> \<open>Sdk_Types\<close>: the data of the Solana crates that the source reads, and the record \<open>sdk\<close> of the
    library functions it calls. They are parameters of the model: printing of keys, decoding of
    system and token instructions, base64, deserialisation, message flags. \<open>Demo_Sdk\<close> is one concrete
    value, for the witnesses only.
  \<^item> \<open>Rpc_Types\<close>: \<open>rpc/types.rs\<close>, \<open>rpc/error.rs\<close>, \<open>lib.rs\<close>. \<open>Entry_Points\<close>: \<open>main.rs\<close> and \<open>build.rs\<close>.
  \<^item> \<open>Proto_Messages\<close>: the message structs of \<open>proto/solana.rs\<close>. \<open>Grpc_Service\<close>: its client and server: the
    trait and its implementation, the builders, the dispatch on the path, the client's calls.
  \<^item> \<open>Known_Programs\<close>, \<open>Instruction_Parser\<close>, \<open>Token_Transfers\<close>: \<open>service/parser.rs\<close>.
  \<^item> \<open>Multi_Client\<close>: \<open>MultiClient\<close> of \<open>rpc/client.rs\<close>. Its state is the shared index behind the lock
    (\<open>rw_index\<close>), part of the shared state \<open>sys\<close>; an RPC call is a function on the whole shared state, so
    it may also stand for what other tasks do while the call is awaited.
  \<^item> \<open>Concurrent_Failover\<close>: the same loop cut at its \<open>await\<close>, and any number of requests interleaved
    over one shared index (\<open>pool_step\<close>).
  \<^item> \<open>Rpc_Client\<close>: \<open>SolanaRpcClient\<close>: \<open>get_block\<close>, \<open>get_blocks\<close>, \<open>get_block_time\<close>, \<open>get_latest_slot\<close>,
    \<open>convert_transactions\<close>, \<open>unsubscribe_all\<close>, \<open>drop\<close>.
  \<^item> \<open>Slot_Subscription\<close>: \<open>subscribe_slots\<close>, \<open>run_slot_subscription\<close>, \<open>handle_reconnect\<close> and the drop of a
    \<open>Subscription\<close>, as a state machine: a phase is the \<open>await\<close> the task is suspended at, \<open>react\<close> is one
    step, \<open>reachable\<close> any interleaving of the task with the library, the receiver and other clones. The read
    of \<open>ws_endpoints[current_endpoint]\<close> belongs to the start of an attempt: out of range it is the step
    \<open>PickEndpoint\<close>, a panic that no answer of the library precedes.
  \<^item> \<open>Block_Conversion\<close>: \<open>convert_error\<close> and \<open>convert_block_data\<close> of \<open>service/mod.rs\<close>. \<open>Row_Types\<close>: the types
    of the rows it produces.
  \<^item> \<open>Service\<close>: the handlers of \<open>service/mod.rs\<close> and the loops of the tasks they spawn, each run alone.
  \<^item> \<open>Spawned_Tasks\<close>: how a spawned task ends, with the drop of the client it captured (\<open>end_task\<close>); for the
    subscription task this is \<open>subscription_exit\<close>, the last step of every run of its body.
  \<^item> \<open>Response_Channel\<close>: the contract between a streaming task and its consumer, met by \<open>Block_Ranges\<close>
    (the task of \<open>get_block_range\<close>, its channel and its consumer) and \<open>New_Blocks\<close> (the subscription, the
    forwarding task of \<open>subscribe_new_blocks\<close>, its channel and its consumer), each as a machine whose
    events are the steps of the parties in any order.
  \<^item> \<open>Service_Host\<close>: the service with every task its calls left at work, all on one shared state: a call
    spawns a task (\<open>host_get_block_range\<close>, \<open>host_subscribe_new_blocks\<close>), and \<open>run_task\<close> runs any of them by one step
    of its pipeline. \<open>solana_service\<close> in \<open>Grpc_Service\<close> is the trait implemented on this state.

  Every definition that models code is executable. A function that can panic returns \<open>panic + 'a\<close>; a \<open>Result\<close> is
  \<open>rpc_error + 'a\<close>; an \<open>async\<close> function is a function on the shared state. Arithmetic takes the build
  profile: it panics on overflow in \<open>Debug\<close> and wraps in \<open>Release\<close>.

  \<^bold>\<open>What the lemmas show.\<close>
  The failover loop implements trying the clients in order (\<open>try_in_order\<close>), and is safe under
  interference (locale \<open>failover\<close>); a pool of requests is safe and ends, but may skip endpoints. The
  categoriser implements the maximum of the instructions'
  signals, linearly ordered by priority. The block conversion implements a map over the transactions
  behind a test of the indices (\<open>transaction_ok\<close>, \<open>block_data_of\<close>). Every outcome of \<open>get_block\<close> is
  traced to what endpoints answered (\<open>gave_block\<close>, \<open>answered_error\<close>, \<open>block_made_of\<close>, \<open>undecodable\<close>). The subscription has seven
  invariants, each proved step by step: the channel (\<open>channel_inv\<close>), the cursor and delays
  (\<open>cursor_inv\<close>), the origin of its blocks (\<open>given_inv\<close>), the registration (\<open>unregistered_inv\<close>), silence without rooted slots (\<open>no_block_inv\<close>,
  \<open>slots_only_inv\<close>),
  and a rank that bounds its steps once it is dropped. Both streaming loops meet one contract
  (locale \<open>forwarder\<close>): the consumer gets what is emitted, in order, up to its hang-up. The pipelines
  refine these loops under every schedule (\<open>pipe_inv\<close>, \<open>range_inv\<close>), get stuck only where they wait for
  the node or the consumer, and abort the process for two kinds of blocks only. The running service
  keeps an invariant of the shared state and of every task under any schedule (\<open>host_ok\<close>). A converted block is well typed
  (\<open>typed_block_data\<close>). A call of the generated client reaches the method of the same name. The theorems
  of this theory compose these along a request.

  \<^bold>\<open>Bounds.\<close> No definition uses fuel: the failover loop has a measure (the clients left to try), a pool
  of requests takes at most two steps per request and client, the
  other loops recurse over lists, and the endless loop of the subscription is a step relation whose
  runs are lists of events of any length. The two channels hold 100 items, as in the source.

  \<^bold>\<open>Hypotheses.\<close> \<open>api_ok\<close>: no RPC call leaves the shared index out of range or its lock poisoned, which
  is what every step of other requests keeps (\<open>pool_step_ok\<close>). \<open>keys_print_long\<close>: a printed key
  has at least 32 characters. \<open>token_id_ok\<close>: the id of the token program is the one key that prints as
  the constant in the parser. \<open>transports\<close>: a connection of \<open>tonic\<close> carries path, message and answer.
  \<open>lib_runs_only\<close>: \<open>tonic\<close>'s server acts on the service through its methods only.

  \<^bold>\<open>Not modelled.\<close> The byte encoding of messages (\<open>prost\<close>), HTTP and the RPC and WebSocket libraries
  are third-party code. Request metadata is ignored by the handlers. The server's \<open>poll_ready\<close>
  is constant. A panic inside a function of the SDK is outside the model: \<open>is_signer\<close> and \<open>is_maybe_writable\<close>
  are taken to return, which they do for a consistent message header. \<open>subscribe_slots\<close> never fails, so the branch of \<open>subscribe_new_blocks\<close> for its error
  has no counterpart. All tasks run on workers of the runtime, where \<open>block_on\<close> panics (\<open>worker\<close>). The
  Go and Elixir parts of the repository are separate programs.
\<close>

section \<open>Properties across components\<close>

text \<open>C1: A \<open>get_block\<close> request never breaks the client: the shared endpoint index stays in range, a panic
  is the overflow of a total (with overflow checks) or an index out of range in the block, and an
  error is always \<open>Internal\<close>. An answer carries the header of the requested slot, with the hash of
  the block an endpoint gave for it, and one row per transaction of that block, in order, under the
  transaction's first signature.\<close>

theorem get_block_request_answered:
  assumes "sys_ok (sc_client sc) s" and "api_ok api (sc_client sc)"
  shows "\<exists>r s'. get_block_handler p K api sc req s = (r, s') \<and> sys_ok (sc_client sc) s' \<and>
    (case r of
       Inl e \<Rightarrow> e = ArithmeticOverflow \<and> p = Debug \<or> e = IndexOutOfBounds
     | Inr (Inl st) \<Rightarrow> code st = Internal
     | Inr (Inr resp) \<Rightarrow>
         (\<exists>bd hdr c t b. gb_block_data resp = Some bd \<and> bd_block bd = Some hdr \<and>
            c \<in> set (clients (sc_client sc)) \<and>
            fst (api_get_block api c (as_u64 (gb_slot req)) (default_block_config (sc_client sc)) t) = Inr b \<and>
            pb_slot hdr = gb_slot req \<and> pb_blockhash hdr = ui_blockhash b \<and>
            map ptx_signature (bd_transactions bd) =
              map (\<lambda>tx. signature_to_string K (fst (the (decoded K tx))))
                (case ui_transactions b of Some txs \<Rightarrow> txs | None \<Rightarrow> [])))"
proof -
  obtain q s' where g: "get_block p K api sc (as_u64 (gb_slot req)) s = (q, s')" "sys_ok (sc_client sc) s'"
    "case q of
       Inl e \<Rightarrow> e = ArithmeticOverflow \<and> p = Debug
     | Inr (Inl err) \<Rightarrow> True
     | Inr (Inr blk) \<Rightarrow>
         (\<exists>b ts. gave_block api sc (as_u64 (gb_slot req)) b \<and> block_made_of K (as_u64 (gb_slot req)) b ts blk)"
    using get_block_answer [OF assms, of p K "as_u64 (gb_slot req)"] by (force split: sum.splits)
  consider e where "q = Inl e" | err where "q = Inr (Inl err)" | blk where "q = Inr (Inr blk)"
    by (metis sum.exhaust)
  then show ?thesis
  proof cases
    case 3
    obtain c t b ts where b: "c \<in> set (clients (sc_client sc))"
        "fst (api_get_block api c (as_u64 (gb_slot req)) (default_block_config (sc_client sc)) t) = Inr b"
        "block_made_of K (as_u64 (gb_slot req)) b ts blk"
      using g(3) 3 by (auto simp: gave_block_def)
    then have "convert_transactions K (as_u64 (gb_slot req)) (ui_transactions b) = Inr (blk_transactions blk)"
        "blk_slot blk = as_u64 (gb_slot req)" "blk_blockhash blk = ui_blockhash b"
      by (simp_all add: convert_transactions_made block_made_of_def)
    with converted_signatures [OF this(1)] g(1,2) 3 b show ?thesis
      by (auto simp: get_block_handler_cases block_data_of_def convert_header_def)
  qed (use g in \<open>auto simp: get_block_handler_cases\<close>)
qed

theorem get_block_request_answered_witness:
  "\<exists>r s'. get_block_handler Debug demo_sdk demo_api demo_client \<lparr>gb_slot = 42\<rparr> (demo_sys 0 ()) = (r, s') \<and>
     sys_ok demo_multi_client s'"
  using get_block_request_answered [of demo_client "demo_sys 0 ()" demo_api Debug demo_sdk "\<lparr>gb_slot = 42\<rparr>"]
  by auto

text \<open>C38: A missing block reaches the caller as \<open>Internal\<close>: when every endpoint says the slot is not
  available, the handler answers \<open>Internal\<close> with the text of \<open>BlockNotFound\<close>, although
  \<open>convert_error\<close> maps that error to \<open>NotFound\<close>.\<close>

theorem missing_block_is_internal:
  assumes "sys_ok (sc_client sc) s" and "api_ok api (sc_client sc)"
    and "\<And>c t. c \<in> set (clients (sc_client sc)) \<Longrightarrow>
      \<exists>msg shown. fst (api_get_block api c (as_u64 (gb_slot req)) (default_block_config (sc_client sc)) t) =
        Inl (ClientErr (ForUser msg) shown) \<and> str_contains msg ''Block not available''"
  shows "\<exists>s'. get_block_handler p K api sc req s =
      (Inr (Inl (Status Internal (''Failed to fetch block: '' @ rpc_error_to_string (BlockNotFound (as_u64 (gb_slot req)))))), s') \<and>
    code (convert_error (BlockNotFound (as_u64 (gb_slot req)))) = NotFound"
proof -
  from get_block_not_found [OF assms, of p K] obtain s' where
    "get_block p K api sc (as_u64 (gb_slot req)) s = (Inr (Inl (BlockNotFound (as_u64 (gb_slot req)))), s')" by blast
  then show ?thesis by (simp add: get_block_handler_cases)
qed

theorem missing_block_is_internal_witness:
  "\<exists>st s'. get_block_handler Release demo_sdk demo_api demo_client \<lparr>gb_slot = 7\<rparr> (demo_sys 2 ()) =
     (Inr (Inl st), s') \<and> code st = Internal"
proof -
  have "str_contains ''Block not available for slot'' ''Block not available''"
    by (simp add: str_contains_iff sublist_code)
  then show ?thesis
    using missing_block_is_internal [where sc = demo_client and s = "demo_sys 2 ()" and api = demo_api
        and p = Release and K = demo_sdk and req = "\<lparr>gb_slot = 7\<rparr>"] by (auto simp: demo_missing_def as_u64_def)
qed

text \<open>Whatever events led the subscription to this point, every block
  data the consumer of \<open>subscribe_new_blocks\<close> was sent is the conversion of a block of the start slot
  or later, which the subscription fetched right after the node announced its slot as the root.\<close>

lemma delivered_blocks_were_announced:
  assumes "reachable E s0 st"
    and "Inr bd \<in> set (delivered (snd (subscribe_task K req (received st) \<lparr>delivered = [], hangs_up = h\<rparr>)))"
  shows "\<exists>before info b after. received st = before @ NewSlot info # NewBlock b # after \<and>
    info_root info = info_slot info \<and> blk_slot b = info_slot info \<and>
    sint (sn_start_slot req) \<le> sint (as_i64 (blk_slot b)) \<and> bd = block_data_of K b"
proof -
  obtain u where u: "u \<in> set (received st)" "item_of_update K (sn_start_slot req) u = Some (Inr bd)"
    using forwarded_items [OF assms(2) [unfolded subscribe_task_def]] by blast
  then obtain b where b: "u = NewBlock b" "sint (sn_start_slot req) \<le> sint (as_i64 (blk_slot b))" "bd = block_data_of K b"
    by (auto simp: item_of_update_def split: slot_update.splits if_splits)
  obtain vs after where "received st = vs @ NewBlock b # after" using u(1) b(1) by (meson split_list)
  moreover from this have "log st = vs @ NewBlock b # after @ queue st" by (simp add: log_def)
  then have "announces (blk_slot b) vs"
    using reachable_channel_inv [OF assms(1)] unfolding channel_inv_def blocks_announced_def by blast
  ultimately show ?thesis using b by (fastforce simp: announces_def)
qed

text \<open>C4: From the node to the consumer: whatever the schedule of the pipeline, every block data the
  consumer of \<open>subscribe_new_blocks\<close> took is the conversion of a block of the start slot or later,
  which the subscription fetched right after the node announced its slot as the root.\<close>

theorem consumed_blocks_were_announced:
  assumes "pipe_reachable E req s0 p" and "Inr bd \<in> set (taken p)"
  shows "\<exists>before info b after. received (sub p) = before @ NewSlot info # NewBlock b # after \<and>
    info_root info = info_slot info \<and> blk_slot b = info_slot info \<and>
    sint (sn_start_slot req) \<le> sint (as_i64 (blk_slot b)) \<and> bd = block_data_of (env_sdk E) b"
proof -
  have inv: "pipe_inv E req s0 p" by (rule reachable_pipe_inv [OF assms(1)])
  then have "Inr bd \<in> set (emitted E req (received (sub p)))"
    using taken_emitted assms(2) set_mono_prefix by blast
  moreover have "reachable E s0 (sub p)" using inv by (simp add: pipe_inv_def)
  ultimately show ?thesis
    using delivered_blocks_were_announced [of E s0 "sub p" bd "env_sdk E" req None]
    by (simp flip: emitted_subscribe_task)
qed

theorem consumed_blocks_were_announced_witness:
  "\<exists>p before info b after. pipe_run demo_env \<lparr>sn_start_slot = 40\<rparr> demo_pipe_events
       (subscribe_new_blocks demo_env (demo_sys 1 ())) = Some p \<and>
     received (sub p) = before @ NewSlot info # NewBlock b # after \<and> blk_slot b = info_slot info"
proof -
  obtain p where p: "pipe_run demo_env \<lparr>sn_start_slot = 40\<rparr> demo_pipe_events
      (subscribe_new_blocks demo_env (demo_sys 1 ())) = Some p" "Inr (block_data_of demo_sdk demo_fetched) \<in> set (taken p)"
    using demo_pipe_run by auto
  from consumed_blocks_were_announced [OF pipe_reachable_run [OF pipe_reachable.start p(1)] p(2)] p(1)
  show ?thesis by blast
qed

text \<open>C29: If the node never notifies a slot that is its own root, no consumer ever takes a block: blocks are
  fetched on such notifications only. (Validators report a root that trails the slot, so the stream
  of new blocks stays silent but for errors.)\<close>

theorem unrooted_slots_deliver_nothing:
  assumes "pipe_run E req evs (subscribe_new_blocks E s) = Some p" and "list_all unrooted_pipe evs"
  shows "Inr bd \<notin> set (taken p)"
proof
  assume bd: "Inr bd \<in> set (taken p)"
  have "pipe_inv E req s p"
    by (rule reachable_pipe_inv [OF pipe_reachable_run [OF pipe_reachable.start assms(1)]])
  then have "Inr bd \<in> set (emitted E req (received (sub p)))"
    using taken_emitted bd set_mono_prefix by blast
  then obtain u where "u \<in> set (received (sub p))" "is_block u"
    by (auto dest!: in_emitted simp: item_of_update_def split: slot_update.splits)
  moreover have "no_block_inv (sub p)"
    by (rule pipe_no_block [OF assms]) (simp add: subscribe_new_blocks_def start_no_block_inv)
  ultimately show False by (auto simp: no_block_inv_def log_def list_all_iff)
qed

theorem unrooted_slots_deliver_nothing_witness:
  "\<exists>p. pipe_run demo_env \<lparr>sn_start_slot = 40\<rparr>
       (map Sub [Connect (Inr ()), Subscribe (Inr ()), Notify (Some (demo_slot\<lparr>info_root := 10\<rparr>)), Sent] @ [Take])
       (subscribe_new_blocks demo_env (demo_sys 1 ())) = Some p \<and> (\<forall>bd. Inr bd \<notin> set (taken p))"
proof -
  let ?evs = "map Sub [Connect (Inr ()), Subscribe (Inr ()), Notify (Some (demo_slot\<lparr>info_root := 10\<rparr>)), Sent] @ [Take]"
  have "\<exists>p. pipe_run demo_env \<lparr>sn_start_slot = 40\<rparr> ?evs (subscribe_new_blocks demo_env (demo_sys 1 ())) = Some p"
    by (simp add: demo_slot_def subscribe_new_blocks_def subscribe_slots_def pipe_react_def process_aborted_iff
        finish_send_open CHANNEL_CAPACITY_def handle_update_def)
  then obtain p where p: "pipe_run demo_env \<lparr>sn_start_slot = 40\<rparr> ?evs (subscribe_new_blocks demo_env (demo_sys 1 ())) = Some p" ..
  have "list_all unrooted_pipe ?evs" by (simp add: demo_slot_def)
  from unrooted_slots_deliver_nothing [OF p this] p show ?thesis by blast
qed

text \<open>C30: A consumer that hangs up is not noticed. While the node works and notifies no root, through any
  number of notifications and whether or not the consumer is gone, the forwarding task only waits
  for the next update; so the subscription is neither dropped nor cancelled, its task keeps running
  and its id stays registered.\<close>

theorem hung_up_consumer_unnoticed:
  assumes "ws_endpoints (env_client E) \<noteq> []" and "list_all calm_event evs"
    and "pipe_run E req evs (subscribe_new_blocks E s) = Some p"
  shows "forward p = Receiving \<and> rx_open (sub p) \<and> running (phase (sub p)) \<and>
    env_id E \<in> active_subscriptions (shared (sub p))"
  using idle_run [OF assms(3,2) start_idle [OF assms(1)]] by (simp add: idle_inv_def slots_only_inv_def)

theorem hung_up_consumer_unnoticed_witness:
  "\<exists>p. pipe_run demo_env \<lparr>sn_start_slot = 40\<rparr>
       ([HangUp] @ map Sub [Connect (Inr ()), Subscribe (Inr ()), Notify (Some (demo_slot\<lparr>info_root := 10\<rparr>)), Sent] @ [Take])
       (subscribe_new_blocks demo_env (demo_sys 1 ())) = Some p \<and>
     \<not> consumer_here p \<and> forward p = Receiving \<and> running (phase (sub p))"
proof -
  let ?evs = "[HangUp] @ map Sub [Connect (Inr ()), Subscribe (Inr ()), Notify (Some (demo_slot\<lparr>info_root := 10\<rparr>)), Sent] @ [Take]"
  have "\<exists>p. pipe_run demo_env \<lparr>sn_start_slot = 40\<rparr> ?evs (subscribe_new_blocks demo_env (demo_sys 1 ())) = Some p \<and> \<not> consumer_here p"
    by (simp add: demo_slot_def subscribe_new_blocks_def subscribe_slots_def pipe_react_def process_aborted_iff
        finish_send_open CHANNEL_CAPACITY_def handle_update_def)
  then obtain p where p: "pipe_run demo_env \<lparr>sn_start_slot = 40\<rparr> ?evs (subscribe_new_blocks demo_env (demo_sys 1 ())) = Some p"
      "\<not> consumer_here p" by blast
  have "list_all calm_event ?evs" by (simp add: demo_slot_def)
  moreover have "ws_endpoints (env_client demo_env) \<noteq> []" by simp
  ultimately show ?thesis using hung_up_consumer_unnoticed [OF _ _ p(1)] p by blast
qed

end
